theory Spec2Isabelle
  imports Main
begin

section \<open>Lighthouse coverage exceptions and the batch warning (plugins/lighthouse/exceptions.py)\<close>

text \<open>
  A shallow embedding of \<^verbatim>\<open>exceptions.py\<close>: the four concrete coverage exception
  classes with their class-level \<^verbatim>\<open>name\<close> and \<^verbatim>\<open>description\<close>, their constructors, the
  \<^verbatim>\<open>verbose\<close> property, \<^verbatim>\<open>__str__\<close>, and \<^verbatim>\<open>warn_errors\<close>.

  Everything the Python does beyond returning a value is explicit: a raised exception is
  a value of \<open>py_error\<close>, the console and the message boxes are a list of events in the
  \<open>world\<close>, and the function-local variable \<^verbatim>\<open>error\<close> of \<^verbatim>\<open>warn_errors\<close> is threaded through
  both loops as an option (\<open>None\<close> while it is unbound).
\<close>

subsection \<open>Python values, errors and string operators\<close>

datatype py_error =
    TypeError
  | ValueError
  | AttributeError
  | UnboundLocalError
  | HostError string

text \<open>
  \<open>HostError\<close> stands for whatever the host's message box raises when it cannot be shown;
  the other four are the built-in exceptions the module itself can run into.

  The interpreter matters in one place only: \<^verbatim>\<open>BaseException.__init__\<close> of Python 2
  stores \<^verbatim>\<open>self.message\<close> (the single argument, or the empty string), Python 3 has no such
  attribute. The module is written for both (it iterates with the \<^verbatim>\<open>iteritems\<close> helper
  instead of a dict method).
\<close>

datatype python = Python2 | Python3

text \<open>
  \<^verbatim>\<open>template % args\<close> for the conversions this module uses: \<^verbatim>\<open>%s\<close> with string
  arguments (and the escape \<^verbatim>\<open>%%\<close>). Too few or too many arguments are a TypeError, an
  unknown or cut-off conversion is a ValueError, as in Python.
\<close>

fun percent :: "string \<Rightarrow> string list \<Rightarrow> py_error + string" where
  "percent [] [] = Inr []"
| "percent [] (a # as) = Inl TypeError"
| "percent [c] as = (if c = CHR ''%'' then Inl ValueError else map_sum id ((#) c) (percent [] as))"
| "percent (c # d # fmt) as =
     (if c \<noteq> CHR ''%'' then map_sum id ((#) c) (percent (d # fmt) as)
      else if d = CHR ''%'' then map_sum id ((#) c) (percent fmt as)
      else if d = CHR ''s'' then
        (case as of
           [] \<Rightarrow> Inl TypeError
         | a # as' \<Rightarrow> map_sum id ((@) a) (percent fmt as'))
      else Inl ValueError)"

text \<open>\<^verbatim>\<open>s * n\<close> on a string.\<close>

definition repeat_str :: "string \<Rightarrow> nat \<Rightarrow> string" where
  "repeat_str s n = concat (replicate n s)"

subsection \<open>The exception classes\<close>

text \<open>
  The concrete subclasses of \<^verbatim>\<open>CoverageException\<close>. The classes themselves are the keys
  of the \<^verbatim>\<open>errors\<close> dictionary and the members of \<^verbatim>\<open>ignore\<close>. The base class is abstract
  (its \<^verbatim>\<open>name\<close> and \<^verbatim>\<open>description\<close> are the placeholder \<^verbatim>\<open>NotImplementedError\<close>) and is
  not a value of this type.
\<close>

datatype error_type =
    CoverageParsingError
  | CoverageMissingError
  | CoverageMappingAbsent
  | CoverageMappingSuspicious

fun name :: "error_type \<Rightarrow> string" where
  "name CoverageParsingError = ''PARSE_FAILURE''"
| "name CoverageMissingError = ''NO_COVERAGE_ERROR''"
| "name CoverageMappingAbsent = ''NO_COVERAGE_MAPPED''"
| "name CoverageMappingSuspicious = ''BAD_COVERAGE_MAPPING''"

fun description :: "error_type \<Rightarrow> string" where
  "description CoverageParsingError =
     ''Failed to parse one or more of the selected coverage files!\<newline>\<newline>'' @
     '' Possible reasons:\<newline>'' @
     '' - You selected a file that was *not* a coverage file.\<newline>'' @
     '' - The selected coverage file is malformed or unreadable.\<newline>'' @
     '' - A suitable parser for the coverage file is not installed.\<newline>\<newline>'' @
     ''Please see the disassembler console for more info...''"
| "description CoverageMissingError =
     ''No usable coverage data was extracted from one of the selected files.\<newline>\<newline>'' @
     '' Possible reasons:\<newline>'' @
     '' - You selected a coverage file for the wrong binary.\<newline>'' @
     '' - The name of the executable file used to generate this database\<newline>'' @
     ''    is different than the one you collected coverage against.\<newline>'' @
     '' - Your DBI failed to collect any coverage for this binary.\<newline>\<newline>'' @
     ''Please see the disassembler console for more info...''"
| "description CoverageMappingAbsent =
     ''One or more of the loaded coverage files has no visibly mapped data.\<newline>\<newline>'' @
     '' Possible reasons:\<newline>'' @
     '' - The loaded coverage data does not fall within defined functions.\<newline>'' @
     '' - You loaded an absolute address trace with a different imagebase.\<newline>'' @
     '' - The coverage data might be corrupt or malformed.\<newline>\<newline>'' @
     ''Please see the disassembler console for more info...''"
| "description CoverageMappingSuspicious =
     ''One or more of the loaded coverage files appears to be badly mapped.\<newline>\<newline>'' @
     '' Possible reasons:\<newline>'' @
     '' - You selected the wrong binary/module to load coverage from.\<newline>'' @
     '' - Your coverage file/data is for a different version of the\<newline>'' @
     ''   binary that does not match what the disassembler has open.\<newline>'' @
     '' - You recorded self-modifying code or something with very\<newline>'' @
     ''    abnormal control flow (obfuscated code, malware, packers).\<newline>'' @
     '' - The coverage data might be corrupt or malformed.\<newline>\<newline>'' @
     ''This means that any coverage displayed by Lighthouse is PROBABLY\<newline>'' @
     ''WRONG and is not be trusted because the coverage data does not\<newline>'' @
     ''appear to match the disassembled binary.''"

text \<open>
  The coverage object handed to the two mapping warnings is defined elsewhere; the module
  reads its \<^verbatim>\<open>filepath\<close> attribute and keeps a reference. A constructor argument is either
  such an object or \<^verbatim>\<open>None\<close>.
\<close>

record coverage_file =
  cf_filepath :: string
  cf_addresses :: "nat list"

datatype py_value = PyNone | PyCoverage coverage_file

fun getattr_filepath :: "py_value \<Rightarrow> py_error + string" where
  "getattr_filepath PyNone = Inl AttributeError"
| "getattr_filepath (PyCoverage c) = Inr (cf_filepath c)"

text \<open>
  An instance: its class, what \<^verbatim>\<open>BaseException.__init__\<close> stored (\<^verbatim>\<open>args\<close>, and \<^verbatim>\<open>message\<close>
  where the interpreter has it), \<^verbatim>\<open>filepath\<close>, and the attribute its subclass adds.
\<close>

record CoverageException =
  etype :: error_type
  args :: "string list"
  message :: "string option"
  filepath :: string
  tracebacks :: "(string \<times> string) list option"
  coverage :: "py_value option"

definition BaseException_message :: "python \<Rightarrow> string list \<Rightarrow> string option" where
  "BaseException_message py as =
     (case py of
        Python2 \<Rightarrow> Some (case as of [a] \<Rightarrow> a | _ \<Rightarrow> [])
      | Python3 \<Rightarrow> None)"

definition CoverageException_init ::
  "python \<Rightarrow> error_type \<Rightarrow> string \<Rightarrow> string \<Rightarrow> CoverageException" where
  "CoverageException_init py cls msg path =
     \<lparr>etype = cls, args = [msg], message = BaseException_message py [msg],
      filepath = path, tracebacks = None, coverage = None\<rparr>"

definition CoverageParsingError_init ::
  "python \<Rightarrow> string \<Rightarrow> (string \<times> string) list \<Rightarrow> CoverageException" where
  "CoverageParsingError_init py path tbs =
     (CoverageException_init py CoverageParsingError ''Failed to parse coverage file'' path)
       \<lparr>tracebacks := Some tbs\<rparr>"

definition CoverageMissingError_init :: "python \<Rightarrow> string \<Rightarrow> CoverageException" where
  "CoverageMissingError_init py path =
     CoverageException_init py CoverageMissingError ''No coverage extracted from file'' path"

text \<open>
  The two mapping warnings take the coverage object as their only positional argument;
  the list is what the caller wrote between the parentheses. A call with no argument (or
  with more than one) is a TypeError before the body runs; the body reads
  \<^verbatim>\<open>coverage.filepath\<close> first, which is an AttributeError on \<^verbatim>\<open>None\<close>.
\<close>

fun CoverageMappingAbsent_init :: "python \<Rightarrow> py_value list \<Rightarrow> py_error + CoverageException" where
  "CoverageMappingAbsent_init py [cov] =
     (case getattr_filepath cov of
        Inl x \<Rightarrow> Inl x
      | Inr path \<Rightarrow>
          Inr ((CoverageException_init py CoverageMappingAbsent
                  ''No coverage data could be mapped'' path)
                \<lparr>coverage := Some cov\<rparr>))"
| "CoverageMappingAbsent_init py _ = Inl TypeError"

fun CoverageMappingSuspicious_init :: "python \<Rightarrow> py_value list \<Rightarrow> py_error + CoverageException" where
  "CoverageMappingSuspicious_init py [cov] =
     (case getattr_filepath cov of
        Inl x \<Rightarrow> Inl x
      | Inr path \<Rightarrow>
          Inr ((CoverageException_init py CoverageMappingSuspicious
                  ''Coverage data appears badly mapped'' path)
                \<lparr>coverage := Some cov\<rparr>))"
| "CoverageMappingSuspicious_init py _ = Inl TypeError"

text \<open>The \<^verbatim>\<open>verbose\<close> property: \<^verbatim>\<open>"Error: %s\n\n%s" % (self.name, self.description)\<close>.\<close>

definition verbose :: "CoverageException \<Rightarrow> py_error + string" where
  "verbose self =
     percent ''Error: %s\<newline>\<newline>%s'' [name (etype self), description (etype self)]"

text \<open>
  \<^verbatim>\<open>__str__\<close>: \<^verbatim>\<open>self.message + " '%s'" % self.filepath\<close>. The attribute is read first;
  where the instance has none, that read is an AttributeError.
\<close>

definition str :: "CoverageException \<Rightarrow> py_error + string" where
  "str self =
     (case message self of
        None \<Rightarrow> Inl AttributeError
      | Some m \<Rightarrow>
          map_sum id ((@) m) (percent ([CHR '' '', CHR 0x27] @ ''%s'' @ [CHR 0x27]) [filepath self]))"

subsection \<open>The console, the message box and the two argument objects\<close>

text \<open>
  What \<^verbatim>\<open>warn_errors\<close> can touch. The dictionary \<^verbatim>\<open>errors\<close> and the list \<^verbatim>\<open>ignore\<close> are
  passed by reference, so they are part of the state a call could change; the dictionary
  is the list of its items in its iteration order (its keys are distinct). The console
  holds, in order, every line logged with \<^verbatim>\<open>lmsg\<close> and every call of the host's message
  box.
\<close>

datatype event = Lmsg string | Warning string

record world =
  errors :: "(error_type \<times> CoverageException list) list"
  ignore :: "error_type list"
  console :: "event list"

datatype outcome = Returned | Raised py_error

text \<open>
  Modelled from the spec: \<^verbatim>\<open>lmsg\<close> of \<^verbatim>\<open>lighthouse.util.log\<close> is not part of the sources.
  The log sink accepts arbitrary text lines, is append-only, returns nothing and is
  always available.
\<close>

definition lmsg :: "string \<Rightarrow> world \<Rightarrow> world" where
  "lmsg line s = s\<lparr>console := console s @ [Lmsg line]\<rparr>"

text \<open>
  Modelled from the spec: \<^verbatim>\<open>iteritems\<close> of \<^verbatim>\<open>lighthouse.util.misc\<close> is not part of the
  sources. The kinds are visited in the batch's own iteration order.
\<close>

definition iteritems :: "('k \<times> 'v) list \<Rightarrow> ('k \<times> 'v) list" where
  "iteritems d = d"

text \<open>
  Modelled from the spec: \<^verbatim>\<open>disassembler.warning\<close> of \<^verbatim>\<open>lighthouse.util.disassembler\<close> is
  not part of the sources. The user-notification primitive is supplied by the host: it
  accepts one formatted string and returns no meaningful value, and it may be
  unavailable. The host is a parameter: \<open>host text = None\<close> when the box is shown,
  \<open>Some x\<close> when the call raises \<open>x\<close>. The call itself is recorded on the console
  either way.
\<close>

type_synonym notifier = "string \<Rightarrow> py_error option"

definition warning :: "notifier \<Rightarrow> string \<Rightarrow> world \<Rightarrow> py_error option \<times> world" where
  "warning host text s = (host text, s\<lparr>console := console s @ [Warning text]\<rparr>)"

subsection \<open>\<^verbatim>\<open>warn_errors\<close>\<close>

text \<open>
  The local variable \<^verbatim>\<open>error\<close> of \<^verbatim>\<open>warn_errors\<close>: unbound when the call starts, bound by
  the inner loop, and read after it. A Python loop variable outlives its loop, so the
  value is carried from one error type to the next.
\<close>

type_synonym frame = "CoverageException option"

text \<open>\<^verbatim>\<open>for error in error_list: lmsg(" - %s" % error.filepath)\<close>\<close>

fun for_error :: "CoverageException list \<Rightarrow> frame \<times> world \<Rightarrow> outcome \<times> frame \<times> world" where
  "for_error [] (error, s) = (Returned, error, s)"
| "for_error (e # error_list) (error, s) =
     (case percent '' - %s'' [filepath e] of
        Inl x \<Rightarrow> (Raised x, Some e, s)
      | Inr line \<Rightarrow> for_error error_list (Some e, lmsg line s))"

text \<open>
  The body of the outer loop, for one item of the dictionary: the separator, the header,
  the files, then the message box unless the type is ignored (\<^verbatim>\<open>continue\<close>).
\<close>

fun warn_error_type ::
  "notifier \<Rightarrow> error_type \<times> CoverageException list \<Rightarrow> frame \<times> world \<Rightarrow> outcome \<times> frame \<times> world" where
  "warn_error_type host (error_type, error_list) (error, s) =
     (let s1 = lmsg (repeat_str ''-'' 50) s in
      case percent ''Files reporting %s:'' [name error_type] of
        Inl x \<Rightarrow> (Raised x, error, s1)
      | Inr header \<Rightarrow>
          (case for_error error_list (error, lmsg header s1) of
             (Raised x, error', s2) \<Rightarrow> (Raised x, error', s2)
           | (Returned, error', s2) \<Rightarrow>
               if error_type \<in> set (ignore s2) then (Returned, error', s2)
               else
                 (case error' of
                    None \<Rightarrow> (Raised UnboundLocalError, error', s2)
                  | Some e \<Rightarrow>
                      (case verbose e of
                         Inl x \<Rightarrow> (Raised x, error', s2)
                       | Inr text \<Rightarrow>
                           (case warning host text s2 of
                              (Some x, s3) \<Rightarrow> (Raised x, error', s3)
                            | (None, s3) \<Rightarrow> (Returned, error', s3))))))"

text \<open>\<^verbatim>\<open>for error_type, error_list in iteritems(errors): ...\<close>\<close>

fun for_error_type ::
  "notifier \<Rightarrow> (error_type \<times> CoverageException list) list \<Rightarrow> frame \<times> world \<Rightarrow>
     outcome \<times> frame \<times> world" where
  "for_error_type host [] (error, s) = (Returned, error, s)"
| "for_error_type host (item # items) (error, s) =
     (case warn_error_type host item (error, s) of
        (Raised x, error', s') \<Rightarrow> (Raised x, error', s')
      | (Returned, error', s') \<Rightarrow> for_error_type host items (error', s'))"

text \<open>
  \<^verbatim>\<open>warn_errors(errors, ignore)\<close>: nothing at all for an empty dictionary; otherwise the
  loop and, when the loop was not left by an exception, the closing separator. The module
  has no \<^verbatim>\<open>try\<close>: an exception leaves the function where it is raised.
\<close>

definition warn_errors :: "notifier \<Rightarrow> world \<Rightarrow> outcome \<times> world" where
  "warn_errors host s =
     (if errors s = [] then (Returned, s)
      else
        (case for_error_type host (iteritems (errors s)) (None, s) of
           (Raised x, error, s') \<Rightarrow> (Raised x, s')
         | (Returned, error, s') \<Rightarrow> (Returned, lmsg (repeat_str ''-'' 50) s')))"

subsection \<open>The events of a run as a function of its inputs\<close>

text \<open>
  What the loops append to the console, what they leave in \<^verbatim>\<open>error\<close> and how they end,
  without the state threaded through. The lemmas below show that the loops of the
  previous subsection compute exactly this; the properties of \<^verbatim>\<open>warn_errors\<close> are then
  read off these functions.
\<close>

definition files_log :: "CoverageException list \<Rightarrow> event list" where
  "files_log error_list = map (\<lambda>e. Lmsg ('' - '' @ filepath e)) error_list"

definition group_log :: "error_type \<Rightarrow> CoverageException list \<Rightarrow> event list" where
  "group_log error_type error_list =
     [Lmsg (repeat_str ''-'' 50), Lmsg (''Files reporting '' @ name error_type @ '':'')] @
     files_log error_list"

definition bound_after :: "CoverageException list \<Rightarrow> frame \<Rightarrow> frame" where
  "bound_after error_list error = (if error_list = [] then error else Some (last error_list))"

definition verbose_text :: "CoverageException \<Rightarrow> string" where
  "verbose_text e = ''Error: '' @ name (etype e) @ ''\<newline>\<newline>'' @ description (etype e)"

definition type_events ::
  "notifier \<Rightarrow> error_type list \<Rightarrow> error_type \<times> CoverageException list \<Rightarrow> frame \<Rightarrow>
     outcome \<times> frame \<times> event list" where
  "type_events host ign item error =
     (case item of (error_type, error_list) \<Rightarrow>
        if error_type \<in> set ign
        then (Returned, bound_after error_list error, group_log error_type error_list)
        else
          (case bound_after error_list error of
             None \<Rightarrow> (Raised UnboundLocalError, None, group_log error_type error_list)
           | Some e \<Rightarrow>
               (case host (verbose_text e) of
                  Some x \<Rightarrow> Raised x
                | None \<Rightarrow> Returned,
                Some e, group_log error_type error_list @ [Warning (verbose_text e)])))"

fun loop_events ::
  "notifier \<Rightarrow> error_type list \<Rightarrow> (error_type \<times> CoverageException list) list \<Rightarrow> frame \<Rightarrow>
     outcome \<times> frame \<times> event list" where
  "loop_events host ign [] error = (Returned, error, [])"
| "loop_events host ign (item # items) error =
     (case type_events host ign item error of
        (Raised x, error', tr) \<Rightarrow> (Raised x, error', tr)
      | (Returned, error', tr) \<Rightarrow>
          (case loop_events host ign items error' of
             (out, error'', tr') \<Rightarrow> (out, error'', tr @ tr')))"

text \<open>
  The texts of the message box calls among some events, in order; and the texts a host is
  actually asked when it is to be asked a list of texts in turn: the report ends with the
  first one it raises on.
\<close>

fun boxes :: "event list \<Rightarrow> string list" where
  "boxes [] = []"
| "boxes (Lmsg line # tr) = boxes tr"
| "boxes (Warning w # tr) = w # boxes tr"

fun requested :: "notifier \<Rightarrow> string list \<Rightarrow> string list" where
  "requested host [] = []"
| "requested host (w # ws) = w # (case host w of None \<Rightarrow> requested host ws | Some x \<Rightarrow> [])"

subsection \<open>Hosts and instances used as concrete inputs\<close>

text \<open>A host that shows every box, and a headless one on which every call fails.\<close>

definition shown :: notifier where
  "shown text = None"

definition headless :: notifier where
  "headless text = Some (HostError ''no display'')"

definition parse_a :: CoverageException where
  "parse_a = CoverageParsingError_init Python3 ''a.cov'' []"

definition missing_b :: CoverageException where
  "missing_b = CoverageMissingError_init Python3 ''b.cov''"

definition cov_c :: coverage_file where
  "cov_c = \<lparr>cf_filepath = ''c.cov'', cf_addresses = [4096]\<rparr>"

definition missing_d :: CoverageException where
  "missing_d = CoverageMissingError_init Python3 ''d.cov''"

definition suspicious_c :: CoverageException where
  "suspicious_c =
     (CoverageException_init Python3 CoverageMappingSuspicious
        ''Coverage data appears badly mapped'' ''c.cov'')
       \<lparr>coverage := Some (PyCoverage cov_c)\<rparr>"

text \<open>
  A batch of two error types, one file for the first and two for the second, with a chosen
  \<^verbatim>\<open>ignore\<close> list and an empty console; and a batch whose only type has no instance and is
  ignored.
\<close>

definition two_types :: "error_type list \<Rightarrow> world" where
  "two_types ign =
     \<lparr>errors = [(CoverageParsingError, [parse_a]), (CoverageMissingError, [missing_b, missing_d])],
      ignore = ign, console = []\<rparr>"

text \<open>The same with a third error type and one file for it.\<close>

definition three_types :: "error_type list \<Rightarrow> world" where
  "three_types ign =
     \<lparr>errors = [(CoverageParsingError, [parse_a]),
                (CoverageMissingError, [missing_b, missing_d]),
                (CoverageMappingSuspicious, [suspicious_c])],
      ignore = ign, console = []\<rparr>"

definition empty_type :: world where
  "empty_type =
     \<lparr>errors = [(CoverageParsingError, [])], ignore = [CoverageParsingError], console = []\<rparr>"

section \<open>Properties\<close>

subsection \<open>Formatting\<close>

lemmas example_defs =
  parse_a_def missing_b_def missing_d_def cov_c_def CoverageParsingError_init_def CoverageMissingError_init_def
  CoverageException_init_def BaseException_message_def

lemma percent_line: "percent '' - %s'' [p] = Inr ('' - '' @ p)"
  by simp

lemma percent_header:
  "percent ''Files reporting %s:'' [n] = Inr (''Files reporting '' @ n @ '':'')"
  by simp

lemma verbose_eq: "verbose e = Inr (verbose_text e)"
  by (simp add: verbose_def verbose_text_def)

lemma separator_literal:
  "repeat_str ''-'' 50 = ''--------------------------------------------------''"
  by (simp add: repeat_str_def eval_nat_numeral)

subsection \<open>The loops compute the events\<close>

lemma for_error_eq:
  "for_error error_list (error, s) =
     (Returned, bound_after error_list error, s\<lparr>console := console s @ files_log error_list\<rparr>)"
proof (induction error_list arbitrary: error s)
  case Nil
  show ?case by (simp add: bound_after_def files_log_def)
next
  case (Cons e es)
  have "for_error (e # es) (error, s) = for_error es (Some e, lmsg ('' - '' @ filepath e) s)"
    by (simp only: for_error.simps percent_line sum.case)
  also have "\<dots> = (Returned, bound_after es (Some e),
      (lmsg ('' - '' @ filepath e) s)
        \<lparr>console := console (lmsg ('' - '' @ filepath e) s) @ files_log es\<rparr>)"
    by (rule Cons.IH)
  finally show ?case
    by (simp add: bound_after_def files_log_def lmsg_def)
qed

lemma warn_error_type_eq:
  "warn_error_type host item (error, s) =
     (case type_events host (ignore s) item error of
        (out, error', tr) \<Rightarrow> (out, error', s\<lparr>console := console s @ tr\<rparr>))"
proof (cases item)
  case (Pair k l)
  have hdr: "percent ''Files reporting %s:'' [name k] = Inr (''Files reporting '' @ name k @ '':'')"
    by (rule percent_header)
  show ?thesis
    unfolding Pair warn_error_type.simps Let_def hdr sum.case for_error_eq prod.case
      verbose_eq type_events_def warning_def
    by (simp add: lmsg_def group_log_def split: option.split)
qed

lemma for_error_type_eq:
  "for_error_type host items (error, s) =
     (case loop_events host (ignore s) items error of
        (out, error', tr) \<Rightarrow> (out, error', s\<lparr>console := console s @ tr\<rparr>))"
proof (induction items arbitrary: error s)
  case Nil
  show ?case by simp
next
  case (Cons item items)
  show ?case
    by (simp add: warn_error_type_eq Cons.IH split: prod.split outcome.split)
qed

lemma warn_errors_eq:
  "warn_errors host s =
     (if errors s = [] then (Returned, s)
      else
        (case loop_events host (ignore s) (errors s) None of
           (Raised x, error, tr) \<Rightarrow> (Raised x, s\<lparr>console := console s @ tr\<rparr>)
         | (Returned, error, tr) \<Rightarrow>
             (Returned, s\<lparr>console := console s @ tr @ [Lmsg (repeat_str ''-'' 50)]\<rparr>)))"
  by (simp add: warn_errors_def iteritems_def for_error_type_eq lmsg_def
      split: prod.split outcome.split)

lemma loop_events_append:
  "loop_events host ign (xs @ ys) error =
     (case loop_events host ign xs error of
        (Raised x, error', tr) \<Rightarrow> (Raised x, error', tr)
      | (Returned, error', tr) \<Rightarrow>
          (case loop_events host ign ys error' of
             (out, error'', tr') \<Rightarrow> (out, error'', tr @ tr')))"
  by (induction xs arbitrary: error) (auto split: prod.split outcome.split)

lemma type_events_hd:
  "type_events host ign item error = (out, error', tr) \<Longrightarrow>
     \<exists>tr'. tr = Lmsg (repeat_str ''-'' 50) # tr'"
  by (cases item) (auto simp: type_events_def group_log_def split: if_splits option.splits)

lemma loop_events_hd:
  "items \<noteq> [] \<Longrightarrow> loop_events host ign items error = (out, error', tr) \<Longrightarrow>
     \<exists>tr'. tr = Lmsg (repeat_str ''-'' 50) # tr'"
proof (cases items)
  case Nil
  assume "items \<noteq> []"
  with Nil show ?thesis by simp
next
  case (Cons item rest)
  assume run: "loop_events host ign items error = (out, error', tr)"
  obtain o1 e1 t1 where b: "type_events host ign item error = (o1, e1, t1)"
    by (cases "type_events host ign item error") auto
  from type_events_hd [OF b] obtain t1' where t1: "t1 = Lmsg (repeat_str ''-'' 50) # t1'" ..
  from run show ?thesis
    unfolding Cons
    by (auto simp: b t1 split: outcome.splits prod.splits)
qed

lemma finish_hd:
  assumes "loop_events host ign items error = (out, error', tr)"
  shows "\<exists>r. (case out of Returned \<Rightarrow> tr @ [Lmsg (repeat_str ''-'' 50)] | Raised x \<Rightarrow> tr) =
           Lmsg (repeat_str ''-'' 50) # r"
proof (cases items)
  case Nil
  with assms show ?thesis by auto
next
  case (Cons item rest)
  then have "items \<noteq> []" by simp
  from loop_events_hd [OF this assms] obtain tr' where "tr = Lmsg (repeat_str ''-'' 50) # tr'" ..
  then show ?thesis by (cases out) auto
qed

lemma loop_events_outcome_Cons:
  "fst (loop_events host ign (item # items) error) =
     (case fst (type_events host ign item error) of
        Raised x \<Rightarrow> Raised x
      | Returned \<Rightarrow>
          fst (loop_events host ign items (fst (snd (type_events host ign item error)))))"
  by (simp split: prod.split outcome.split)

lemma type_events_outcome:
  "error_type \<notin> set ign \<longrightarrow> error_list \<noteq> [] \<Longrightarrow>
     fst (type_events host ign (error_type, error_list) error) =
       (if error_type \<in> set ign then Returned
        else case host (verbose_text (last error_list)) of Some x \<Rightarrow> Raised x | None \<Rightarrow> Returned)"
  by (simp add: type_events_def bound_after_def)

lemma loop_outcome:
  assumes "\<forall>(error_type, error_list) \<in> set items. error_type \<notin> set ign \<longrightarrow> error_list \<noteq> []"
  shows "(fst (loop_events host ign items error) = Returned) =
      (\<forall>(error_type, error_list) \<in> set items.
         error_type \<notin> set ign \<longrightarrow> host (verbose_text (last error_list)) = None)"
  using assms
proof (induction items arbitrary: error)
  case Nil
  show ?case by simp
next
  case (Cons item items)
  obtain k l where item: "item = (k, l)" by (cases item)
  with Cons.prems have l: "k \<notin> set ign \<longrightarrow> l \<noteq> []"
    and rest: "\<forall>(error_type, error_list) \<in> set items. error_type \<notin> set ign \<longrightarrow> error_list \<noteq> []"
    by auto
  note ih = Cons.IH [OF rest]
  show ?case
    unfolding loop_events_outcome_Cons item type_events_outcome [OF l]
    by (cases "host (verbose_text (last l))") (simp_all add: ih)
qed

lemma loop_raised:
  assumes "\<forall>(error_type, error_list) \<in> set items. error_type \<notin> set ign \<longrightarrow> error_list \<noteq> []"
    and "fst (loop_events host ign items error) = Raised x"
  shows "\<exists>(error_type, error_list) \<in> set items.
         error_type \<notin> set ign \<and> host (verbose_text (last error_list)) = Some x"
  using assms
proof (induction items arbitrary: error)
  case Nil
  then show ?case by simp
next
  case (Cons item items)
  obtain k l where item: "item = (k, l)" by (cases item)
  with Cons.prems have l: "k \<notin> set ign \<longrightarrow> l \<noteq> []"
    and rest: "\<forall>(error_type, error_list) \<in> set items. error_type \<notin> set ign \<longrightarrow> error_list \<noteq> []"
    by auto
  note ih = Cons.IH [OF rest]
  from Cons.prems(2) show ?case
    unfolding loop_events_outcome_Cons item type_events_outcome [OF l]
    by (cases "host (verbose_text (last l))") (auto split: if_splits dest: ih)
qed

lemma warn_errors_frame:
  "\<exists>out tr. \<forall>c. warn_errors host (s\<lparr>console := c\<rparr>) = (out, s\<lparr>console := c @ tr\<rparr>)"
proof (cases "errors s = []")
  case True
  then have "\<forall>c. warn_errors host (s\<lparr>console := c\<rparr>) = (Returned, s\<lparr>console := c @ []\<rparr>)"
    by (simp add: warn_errors_eq)
  then show ?thesis by blast
next
  case False
  obtain out e tr where l: "loop_events host (ignore s) (errors s) None = (out, e, tr)"
    by (cases "loop_events host (ignore s) (errors s) None") auto
  show ?thesis
  proof (cases out)
    case Returned
    with False l have "\<forall>c. warn_errors host (s\<lparr>console := c\<rparr>) =
        (Returned, s\<lparr>console := c @ (tr @ [Lmsg (repeat_str ''-'' 50)])\<rparr>)"
      by (simp add: warn_errors_eq)
    then show ?thesis by blast
  next
    case (Raised x)
    with False l have "\<forall>c. warn_errors host (s\<lparr>console := c\<rparr>) =
        (Raised x, s\<lparr>console := c @ tr\<rparr>)"
      by (simp add: warn_errors_eq)
    then show ?thesis by blast
  qed
qed

lemma separator_not_header: "repeat_str ''-'' 50 \<noteq> ''Files reporting '' @ n @ '':''"
  by (simp add: separator_literal)

lemma separator_not_line: "repeat_str ''-'' 50 \<noteq> '' - '' @ p"
  by (simp add: separator_literal)

lemma type_events_group:
  assumes "type_events host ign item error = (out, error', tr)"
  shows "\<exists>r. tr = Lmsg (repeat_str ''-'' 50) # r \<and> Lmsg (repeat_str ''-'' 50) \<notin> set r"
proof -
  obtain k l where item: "item = (k, l)" by (cases item)
  have files: "Lmsg (repeat_str ''-'' 50) \<notin> set (files_log l)"
    by (auto simp: files_log_def separator_literal)
  from assms show ?thesis
    unfolding item type_events_def group_log_def
    using files separator_not_header [of "name k"]
    by (auto split: if_splits option.splits)
qed

lemma loop_events_groups:
  "loop_events host ign items error = (Returned, error', tr) \<Longrightarrow>
     \<exists>groups. tr = concat groups \<and> length groups = length items \<and>
       (\<forall>g \<in> set groups. \<exists>r. g = Lmsg (repeat_str ''-'' 50) # r \<and> Lmsg (repeat_str ''-'' 50) \<notin> set r)"
proof (induction items arbitrary: error error' tr)
  case Nil
  then show ?case by simp
next
  case (Cons item items)
  obtain o1 e1 t1 where b: "type_events host ign item error = (o1, e1, t1)"
    by (cases "type_events host ign item error") auto
  obtain o2 e2 t2 where l: "loop_events host ign items e1 = (o2, e2, t2)"
    by (cases "loop_events host ign items e1") auto
  from Cons.prems b l have o1: "o1 = Returned" and o2: "o2 = Returned" and tr: "tr = t1 @ t2"
    by (auto split: outcome.splits)
  from Cons.IH [OF l [unfolded o2]] obtain groups where
    g: "t2 = concat groups" "length groups = length items"
      "\<forall>g \<in> set groups. \<exists>r. g = Lmsg (repeat_str ''-'' 50) # r \<and> Lmsg (repeat_str ''-'' 50) \<notin> set r"
    by blast
  from type_events_group [OF b] have
    "\<exists>r. t1 = Lmsg (repeat_str ''-'' 50) # r \<and> Lmsg (repeat_str ''-'' 50) \<notin> set r" .
  with g tr have "tr = concat (t1 # groups) \<and> length (t1 # groups) = length (item # items) \<and>
       (\<forall>g \<in> set (t1 # groups). \<exists>r. g = Lmsg (repeat_str ''-'' 50) # r \<and> Lmsg (repeat_str ''-'' 50) \<notin> set r)"
    by simp
  then show ?case by blast
qed

lemma count_groups:
  "\<forall>g \<in> set groups. \<exists>r. g = x # r \<and> x \<notin> set r \<Longrightarrow> count_list (concat groups) x = length groups"
  by (induction groups) auto

lemmas run_defs =
  warn_errors_eq type_events_def bound_after_def group_log_def files_log_def verbose_text_def
  separator_literal shown_def headless_def two_types_def empty_type_def missing_d_def example_defs

lemma two_types_simps:
  "errors (two_types ign) =
     [(CoverageParsingError, [parse_a]), (CoverageMissingError, [missing_b, missing_d])]"
  "ignore (two_types ign) = ign"
  "console (two_types ign) = []"
  by (simp_all add: two_types_def)

lemma name_prefix:
  "take 13 (name k @ r) =
     (case k of CoverageParsingError \<Rightarrow> ''PARSE_FAILURE'' | CoverageMissingError \<Rightarrow> ''NO_COVERAGE_E''
      | CoverageMappingAbsent \<Rightarrow> ''NO_COVERAGE_M'' | CoverageMappingSuspicious \<Rightarrow> ''BAD_COVERAGE_'')"
  by (cases k) simp_all

lemma verbose_text_inj: "verbose_text e = verbose_text e' \<Longrightarrow> etype e = etype e'"
proof -
  assume "verbose_text e = verbose_text e'"
  then have "take 13 (drop 7 (verbose_text e)) = take 13 (drop 7 (verbose_text e'))"
    by simp
  then have "take 13 (name (etype e) @ ''\<newline>\<newline>'' @ description (etype e)) =
             take 13 (name (etype e') @ ''\<newline>\<newline>'' @ description (etype e'))"
    by (simp add: verbose_text_def)
  then show ?thesis
    unfolding name_prefix
    by (cases "etype e"; cases "etype e'") simp_all
qed

lemma group_log_no_box: "Warning w \<notin> set (group_log k l)"
  by (auto simp: group_log_def files_log_def)

lemma type_events_boxes:
  assumes "type_events host ign (k, l) error = (out, error', tr)"
  shows "error' = bound_after l error"
    and "Warning w \<in> set tr \<Longrightarrow>
      k \<notin> set ign \<and> (\<exists>e. bound_after l error = Some e \<and> w = verbose_text e)"
proof -
  show "error' = bound_after l error"
    using assms by (auto simp: type_events_def split: if_splits option.splits)
  assume w: "Warning w \<in> set tr"
  show "k \<notin> set ign \<and> (\<exists>e. bound_after l error = Some e \<and> w = verbose_text e)"
  proof (cases "k \<in> set ign")
    case True
    with assms w show ?thesis
      using group_log_no_box [of w k l] by (auto simp: type_events_def)
  next
    case False
    show ?thesis
    proof (cases "bound_after l error")
      case None
      with assms w False show ?thesis
        using group_log_no_box [of w k l] by (auto simp: type_events_def)
    next
      case (Some e)
      with assms w False have "w = verbose_text e"
        using group_log_no_box [of w k l] by (auto simp: type_events_def)
      with Some False show ?thesis
        by blast
    qed
  qed
qed

lemma loop_events_boxes:
  "loop_events host ign items error = (out, error', tr) \<Longrightarrow> Warning w \<in> set tr \<Longrightarrow>
     \<exists>e. (error = Some e \<or> (\<exists>(k, l) \<in> set items. e \<in> set l)) \<and> w = verbose_text e"
proof (induction items arbitrary: error out error' tr)
  case Nil
  then show ?case by simp
next
  case (Cons item items)
  obtain k l where item: "item = (k, l)" by (cases item)
  obtain o1 e1 t1 where b: "type_events host ign (k, l) error = (o1, e1, t1)"
    by (cases "type_events host ign (k, l) error") auto
  obtain o2 e2 t2 where r: "loop_events host ign items e1 = (o2, e2, t2)"
    by (cases "loop_events host ign items e1") auto
  have e1: "e1 = bound_after l error"
    by (rule type_events_boxes(1) [OF b])
  from Cons.prems b r item have "Warning w \<in> set t1 \<or> Warning w \<in> set t2"
    by (auto split: outcome.splits)
  then show ?case
  proof
    assume "Warning w \<in> set t1"
    from type_events_boxes(2) [OF b this] obtain e where
      "bound_after l error = Some e" "w = verbose_text e" by blast
    then have "(error = Some e \<or> e \<in> set l) \<and> w = verbose_text e"
      by (cases "l = []") (auto simp: bound_after_def)
    then show ?thesis
      unfolding item by auto
  next
    assume "Warning w \<in> set t2"
    from Cons.IH [OF r this] obtain e where
      e: "e1 = Some e \<or> (\<exists>(k, l) \<in> set items. e \<in> set l)" "w = verbose_text e" by blast
    then have "(error = Some e \<or> e \<in> set l \<or> (\<exists>(k, l) \<in> set items. e \<in> set l)) \<and>
        w = verbose_text e"
      unfolding e1 by (cases "l = []") (auto simp: bound_after_def)
    then show ?thesis
      unfolding item by auto
  qed
qed

lemma loop_events_boxes_fresh:
  "\<forall>(k, l) \<in> set items. k \<notin> set ign \<longrightarrow> l \<noteq> [] \<Longrightarrow>
   loop_events host ign items error = (out, error', tr) \<Longrightarrow> Warning w \<in> set tr \<Longrightarrow>
     \<exists>(k, l) \<in> set items. \<exists>e \<in> set l. w = verbose_text e"
proof (induction items arbitrary: error out error' tr)
  case Nil
  then show ?case by simp
next
  case (Cons item items)
  obtain k l where item: "item = (k, l)" by (cases item)
  obtain o1 e1 t1 where b: "type_events host ign (k, l) error = (o1, e1, t1)"
    by (cases "type_events host ign (k, l) error") auto
  obtain o2 e2 t2 where r: "loop_events host ign items e1 = (o2, e2, t2)"
    by (cases "loop_events host ign items e1") auto
  from Cons.prems(1) item have here: "k \<notin> set ign \<longrightarrow> l \<noteq> []"
    and rest: "\<forall>(k, l) \<in> set items. k \<notin> set ign \<longrightarrow> l \<noteq> []"
    by auto
  from Cons.prems(2,3) b r item have "Warning w \<in> set t1 \<or> Warning w \<in> set t2"
    by (auto split: outcome.splits)
  then show ?case
  proof
    assume "Warning w \<in> set t1"
    from type_events_boxes(2) [OF b this] obtain e where
      "k \<notin> set ign" "bound_after l error = Some e" "w = verbose_text e" by blast
    with here have "e \<in> set l" "w = verbose_text e"
      by (auto simp: bound_after_def)
    then show ?thesis
      unfolding item by auto
  next
    assume "Warning w \<in> set t2"
    from Cons.IH [OF rest r this] show ?thesis
      by auto
  qed
qed

lemma warn_errors_console_raised:
  assumes batch: "errors s = before @ item # after"
    and before: "loop_events host (ignore s) before None = (Returned, error, t1)"
    and item: "type_events host (ignore s) item error = (Raised x, error', t2)"
  shows "warn_errors host s = (Raised x, s\<lparr>console := console s @ t1 @ t2\<rparr>)"
proof -
  have "loop_events host (ignore s) (errors s) None = (Raised x, error', t1 @ t2)"
    unfolding batch loop_events_append before using item by simp
  then show ?thesis
    using batch by (simp add: warn_errors_eq)
qed

lemma warn_errors_console_returned:
  assumes batch: "errors s = before @ item # after"
    and before: "loop_events host (ignore s) before None = (Returned, error, t1)"
    and item: "type_events host (ignore s) item error = (Returned, error', t2)"
    and after: "loop_events host (ignore s) after error' = (o3, e3, t3)"
  shows "console (snd (warn_errors host s)) =
      console s @ t1 @ t2 @ t3 @ (case o3 of Returned \<Rightarrow> [Lmsg (repeat_str ''-'' 50)] | Raised x \<Rightarrow> [])"
proof -
  have "loop_events host (ignore s) (errors s) None = (o3, e3, t1 @ t2 @ t3)"
    unfolding batch loop_events_append before using item after by simp
  then show ?thesis
    using batch by (cases o3) (simp_all add: warn_errors_eq)
qed

lemma before_console:
  assumes "for_error_type host before (None, s) = (Returned, error, s1)"
  shows "\<exists>t1. loop_events host (ignore s) before None = (Returned, error, t1) \<and>
     s1 = s\<lparr>console := console s @ t1\<rparr>"
proof -
  obtain o1 e1 t1 where "loop_events host (ignore s) before None = (o1, e1, t1)"
    by (cases "loop_events host (ignore s) before None") auto
  with assms show ?thesis
    by (auto simp: for_error_type_eq)
qed

text \<open>No box of the type is requested outside the type's own group.\<close>

lemma no_box_of_type_elsewhere:
  assumes batch: "errors s = before @ (k, l) # after"
    and keys: "distinct (map fst (errors s))"
    and filed: "\<forall>(k', l') \<in> set (errors s). \<forall>e \<in> set l'. etype e = k'"
    and later: "\<forall>(k', l') \<in> set after. k' \<notin> set (ignore s) \<longrightarrow> l' \<noteq> []"
    and before: "loop_events host (ignore s) before None = (Returned, error, t1)"
    and after: "loop_events host (ignore s) after error' = (o3, e3, t3)"
    and kind: "etype e = k"
  shows "Warning (verbose_text e) \<notin> set t1" and "Warning (verbose_text e) \<notin> set t3"
proof -
  have filed_before: "etype e' = k'" if "(k', l') \<in> set before" "e' \<in> set l'" for k' l' e'
    using that filed unfolding batch by fastforce
  have filed_after: "etype e' = k'" if "(k', l') \<in> set after" "e' \<in> set l'" for k' l' e'
    using that filed unfolding batch by fastforce
  from keys have other_before: "\<And>k' l'. (k', l') \<in> set before \<Longrightarrow> k' \<noteq> k"
    and other_after: "\<And>k' l'. (k', l') \<in> set after \<Longrightarrow> k' \<noteq> k"
    unfolding batch by force+
  show "Warning (verbose_text e) \<notin> set t1"
  proof
    assume "Warning (verbose_text e) \<in> set t1"
    from loop_events_boxes [OF before this] obtain e' k' l' where
      "(k', l') \<in> set before" "e' \<in> set l'" "verbose_text e = verbose_text e'"
      by auto
    moreover from this have "etype e' = k'" by (auto dest: filed_before)
    moreover from \<open>(k', l') \<in> set before\<close> have "k' \<noteq> k" by (rule other_before)
    ultimately show False
      using verbose_text_inj [of e e'] kind by simp
  qed
  show "Warning (verbose_text e) \<notin> set t3"
  proof
    assume "Warning (verbose_text e) \<in> set t3"
    from loop_events_boxes_fresh [OF later after this] obtain e' k' l' where
      "(k', l') \<in> set after" "e' \<in> set l'" "verbose_text e = verbose_text e'"
      by auto
    moreover from this have "etype e' = k'" by (auto dest: filed_after)
    moreover from \<open>(k', l') \<in> set after\<close> have "k' \<noteq> k" by (rule other_after)
    ultimately show False
      using verbose_text_inj [of e e'] kind by simp
  qed
qed

lemma boxes_append: "boxes (xs @ ys) = boxes xs @ boxes ys"
  by (induction xs rule: boxes.induct) simp_all

lemma boxes_group_log: "boxes (group_log k l) = []"
  by (induction l) (simp_all add: group_log_def files_log_def boxes_append)

lemma boxes_files_log: "boxes (files_log l) = []"
  by (induction l) (simp_all add: files_log_def)

lemma loop_events_requested:
  "\<forall>(k, l) \<in> set items. k \<notin> set ign \<longrightarrow> l \<noteq> [] \<Longrightarrow>
   loop_events host ign items error = (out, error', tr) \<Longrightarrow>
   boxes tr =
     requested host
       (map (\<lambda>(k, l). verbose_text (last l)) (filter (\<lambda>(k, l). k \<notin> set ign) items))"
proof (induction items arbitrary: error out error' tr)
  case Nil
  then show ?case by simp
next
  case (Cons item items)
  obtain k l where item: "item = (k, l)" by (cases item)
  from Cons.prems(1) item have here: "k \<notin> set ign \<longrightarrow> l \<noteq> []"
    and rest: "\<forall>(k, l) \<in> set items. k \<notin> set ign \<longrightarrow> l \<noteq> []"
    by auto
  obtain o2 e2 t2 where r: "loop_events host ign items (bound_after l error) = (o2, e2, t2)"
    by (cases "loop_events host ign items (bound_after l error)") auto
  note ih = Cons.IH [OF rest r]
  show ?case
  proof (cases "k \<in> set ign")
    case True
    with Cons.prems(2) r have "tr = group_log k l @ t2"
      by (simp add: item type_events_def)
    with True ih show ?thesis
      by (simp add: item boxes_append boxes_group_log)
  next
    case False
    with here have l: "l \<noteq> []" by simp
    then have frame: "bound_after l error = Some (last l)"
      by (simp add: bound_after_def)
    show ?thesis
    proof (cases "host (verbose_text (last l))")
      case None
      with Cons.prems(2) r False frame have "tr = (group_log k l @ [Warning (verbose_text (last l))]) @ t2"
        by (simp add: item type_events_def)
      with False None ih show ?thesis
        by (simp add: item boxes_append boxes_group_log)
    next
      case (Some x)
      with Cons.prems(2) False frame have "tr = group_log k l @ [Warning (verbose_text (last l))]"
        by (simp add: item type_events_def)
      with False Some show ?thesis
        by (simp add: item boxes_append boxes_group_log)
    qed
  qed
qed

lemma warn_errors_requested:
  assumes "\<forall>(k, l) \<in> set (errors s). k \<notin> set (ignore s) \<longrightarrow> l \<noteq> []"
    and "console (snd (warn_errors host s)) = console s @ tr"
  shows "\<exists>ws.
     map (\<lambda>(k, l). verbose (last l))
       (filter (\<lambda>(k, l). k \<notin> set (ignore s)) (errors s)) = map Inr ws \<and>
     boxes tr = requested host ws"
proof -
  obtain out e t0 where l: "loop_events host (ignore s) (errors s) None = (out, e, t0)"
    by (cases "loop_events host (ignore s) (errors s) None") auto
  have "boxes tr = boxes t0"
  proof (cases "errors s = []")
    case True
    with assms(2) l show ?thesis
      by (simp add: warn_errors_eq)
  next
    case False
    with assms(2) l show ?thesis
      by (cases out) (auto simp: warn_errors_eq boxes_append)
  qed
  with loop_events_requested [OF assms(1) l] have
    "boxes tr =
       requested host
         (map (\<lambda>(k, l). verbose_text (last l))
            (filter (\<lambda>(k, l). k \<notin> set (ignore s)) (errors s)))"
    by simp
  moreover have "map (\<lambda>(k, l). verbose (last l)) items =
      map Inr (map (\<lambda>(k, l). verbose_text (last l)) items)" for items
    by (induction items) (auto simp: verbose_eq)
  ultimately show ?thesis
    by blast
qed

lemma failing_box_ends_report:
  assumes batch: "errors s = before @ (error_type, error_list) # after"
    and reached: "for_error_type host before (None, s) = (Returned, error, s1)"
    and reported: "error_type \<notin> set (ignore s)"
    and bound: "(if error_list = [] then error else Some (last error_list)) = Some e"
    and v: "verbose e = Inr w"
    and fails: "host w = Some x"
  shows "warn_errors host s =
     (Raised x,
      s1\<lparr>console := console s1 @
         [Lmsg (repeat_str ''-'' 50), Lmsg (''Files reporting '' @ name error_type @ '':'')] @
         map (\<lambda>e. Lmsg ('' - '' @ filepath e)) error_list @ [Warning w]\<rparr>)"
proof -
  from before_console [OF reached] obtain t1 where
    before: "loop_events host (ignore s) before None = (Returned, error, t1)"
    and s1: "s1 = s\<lparr>console := console s @ t1\<rparr>"
    by blast
  from v have w: "w = verbose_text e"
    by (simp add: verbose_eq)
  from bound have frame: "bound_after error_list error = Some e"
    by (simp add: bound_after_def)
  have "type_events host (ignore s) (error_type, error_list) error =
      (Raised x, Some e, group_log error_type error_list @ [Warning w])"
    using reported frame fails by (simp add: type_events_def w)
  from warn_errors_console_raised [OF batch before this] show ?thesis
    by (simp add: s1 group_log_def files_log_def)
qed

lemma suspicious_c_constructed:
  "CoverageMappingSuspicious_init Python3 [PyCoverage cov_c] = Inr suspicious_c"
  by (simp add: suspicious_c_def cov_c_def)

lemma three_types_simps:
  "errors (three_types ign) =
     [(CoverageParsingError, [parse_a]),
      (CoverageMissingError, [missing_b, missing_d]),
      (CoverageMappingSuspicious, [suspicious_c])]"
  "ignore (three_types ign) = ign"
  "console (three_types ign) = []"
  by (simp_all add: three_types_def)

lemma example_types:
  "etype parse_a = CoverageParsingError" "etype missing_b = CoverageMissingError"
  "etype missing_d = CoverageMissingError" "etype suspicious_c = CoverageMappingSuspicious"
  "filepath parse_a = ''a.cov''" "filepath missing_b = ''b.cov''"
  "filepath missing_d = ''d.cov''" "filepath suspicious_c = ''c.cov''"
  by (simp_all add: suspicious_c_def example_defs)

lemma three_types_before_ignored:
  "for_error_type shown [(CoverageParsingError, [parse_a])] (None, three_types [CoverageParsingError]) =
     (Returned, Some parse_a,
      (three_types [CoverageParsingError])
        \<lparr>console :=
           [Lmsg ''--------------------------------------------------'',
            Lmsg ''Files reporting PARSE_FAILURE:'',
            Lmsg '' - a.cov'']\<rparr>)"
  by (simp add: for_error_type_eq type_events_def bound_after_def group_log_def files_log_def
      separator_literal three_types_def example_types)

lemma three_types_before_shown:
  "for_error_type shown [(CoverageParsingError, [parse_a])] (None, three_types [CoverageMissingError]) =
     (Returned, Some parse_a,
      (three_types [CoverageMissingError])
        \<lparr>console :=
           [Lmsg ''--------------------------------------------------'',
            Lmsg ''Files reporting PARSE_FAILURE:'',
            Lmsg '' - a.cov'',
            Warning (''Error: PARSE_FAILURE\<newline>\<newline>'' @ description CoverageParsingError)]\<rparr>)"
  by (simp add: for_error_type_eq type_events_def bound_after_def group_log_def files_log_def
      verbose_text_def shown_def separator_literal three_types_def example_types)

lemma str_python2:
  "message e = Some m \<Longrightarrow> str e = Inr (m @ '' '' @ [CHR 0x27] @ filepath e @ [CHR 0x27])"
  by (simp add: str_def)

lemma message_python2:
  "message (CoverageException_init Python2 cls m p) = Some m"
  "filepath (CoverageException_init py cls m p) = p"
  by (simp_all add: CoverageException_init_def BaseException_message_def)

text \<open>
  C4. For every failure instance constructed with message m and file path p, its
  short-form string rendering equals m followed by a space and p wrapped in single quotes.

  The rendering reads \<^verbatim>\<open>self.message\<close>. On Python 2 the base class has stored it and the
  rendering is as stated (\<open>str_python2\<close>, \<open>message_python2\<close>). On Python 3 no class of
  the module ever sets it, so \<^verbatim>\<open>str(e)\<close> raises an AttributeError for every instance: the
  theorem evaluates both interpreters on \<^verbatim>\<open>CoverageMissingError("a.cov")\<close>.
\<close>

theorem str_raises_on_python3:
  "str (CoverageMissingError_init Python3 ''a.cov'') = Inl AttributeError \<and>
   str (CoverageMissingError_init Python2 ''a.cov'') =
     Inr (''No coverage extracted from file '' @ [CHR 0x27] @ ''a.cov'' @ [CHR 0x27])"
  by (simp add: str_def CoverageMissingError_init_def CoverageException_init_def
      BaseException_message_def)

text \<open>
  C8. Constructing a \<^verbatim>\<open>CoverageMappingAbsent\<close> or \<^verbatim>\<open>CoverageMappingSuspicious\<close> without a
  coverage object is an error at construction (no argument: TypeError; \<^verbatim>\<open>None\<close>:
  AttributeError), and whenever construction succeeds the argument was one coverage object
  and the instance's \<^verbatim>\<open>filepath\<close> is that object's \<^verbatim>\<open>filepath\<close>.
\<close>

theorem mapping_warnings_need_coverage:
  "CoverageMappingAbsent_init py [] = Inl TypeError \<and>
   CoverageMappingSuspicious_init py [] = Inl TypeError \<and>
   CoverageMappingAbsent_init py [PyNone] = Inl AttributeError \<and>
   CoverageMappingSuspicious_init py [PyNone] = Inl AttributeError \<and>
   (\<forall>as e. CoverageMappingAbsent_init py as = Inr e \<longrightarrow>
      (\<exists>cov. as = [PyCoverage cov] \<and> filepath e = cf_filepath cov \<and>
         coverage e = Some (PyCoverage cov) \<and> etype e = CoverageMappingAbsent)) \<and>
   (\<forall>as e. CoverageMappingSuspicious_init py as = Inr e \<longrightarrow>
      (\<exists>cov. as = [PyCoverage cov] \<and> filepath e = cf_filepath cov \<and>
         coverage e = Some (PyCoverage cov) \<and> etype e = CoverageMappingSuspicious)) \<and>
   (\<exists>e. CoverageMappingAbsent_init py [PyCoverage cov] = Inr e) \<and>
   (\<exists>e. CoverageMappingSuspicious_init py [PyCoverage cov] = Inr e)"
proof -
  have absent: "\<exists>cov. as = [PyCoverage cov] \<and> filepath e = cf_filepath cov \<and>
         coverage e = Some (PyCoverage cov) \<and> etype e = CoverageMappingAbsent"
    if "CoverageMappingAbsent_init py as = Inr e" for as e
    using that
    by (cases "(py, as)" rule: CoverageMappingAbsent_init.cases)
      (auto simp: CoverageException_init_def split: sum.splits elim: getattr_filepath.elims)
  have suspicious: "\<exists>cov. as = [PyCoverage cov] \<and> filepath e = cf_filepath cov \<and>
         coverage e = Some (PyCoverage cov) \<and> etype e = CoverageMappingSuspicious"
    if "CoverageMappingSuspicious_init py as = Inr e" for as e
    using that
    by (cases "(py, as)" rule: CoverageMappingSuspicious_init.cases)
      (auto simp: CoverageException_init_def split: sum.splits elim: getattr_filepath.elims)
  show ?thesis
    using absent suspicious by simp
qed

theorem mapping_warnings_need_coverage_witness:
  "CoverageMappingSuspicious_init Python3 [] = Inl TypeError \<and>
   CoverageMappingAbsent_init Python3 [PyNone] = Inl AttributeError \<and>
   (\<exists>e. CoverageMappingSuspicious_init Python3 [PyCoverage cov_c] = Inr e \<and>
        filepath e = ''c.cov'')"
proof -
  obtain e where e: "CoverageMappingSuspicious_init Python3 [PyCoverage cov_c] = Inr e"
    using mapping_warnings_need_coverage [of Python3 cov_c] by blast
  then have "\<exists>cov. [PyCoverage cov_c] = [PyCoverage cov] \<and> filepath e = cf_filepath cov"
    using mapping_warnings_need_coverage [of Python3 cov_c] by blast
  then have "filepath e = ''c.cov''"
    by (auto simp: cov_c_def)
  with e show ?thesis
    using mapping_warnings_need_coverage [of Python3 cov_c] by blast
qed

text \<open>
  C10. The verbose message of an instance is \<^verbatim>\<open>"Error: "\<close>, the name of its class, a blank
  line and the description of its class. It does not change when \<^verbatim>\<open>args\<close>, \<^verbatim>\<open>message\<close>,
  \<^verbatim>\<open>filepath\<close> or the payload change, so two instances of one class have the same verbose
  message.
\<close>

theorem verbose_depends_on_type_only:
  "verbose e =
     Inr (''Error: '' @ name (etype e) @ ''\<newline>\<newline>'' @ description (etype e)) \<and>
   verbose (e\<lparr>args := a, message := m, filepath := p, tracebacks := t, coverage := c\<rparr>) =
     verbose e \<and>
   (etype e1 = etype e2 \<longrightarrow> verbose e1 = verbose e2)"
  by (simp add: verbose_def)

theorem verbose_depends_on_type_only_witness:
  "verbose parse_a =
     Inr (''Error: PARSE_FAILURE\<newline>\<newline>'' @ description CoverageParsingError) \<and>
   etype parse_a = etype (CoverageParsingError_init Python2 ''z.cov'' [(''drcov'', ''bad header'')]) \<and>
   verbose parse_a = verbose (CoverageParsingError_init Python2 ''z.cov'' [(''drcov'', ''bad header'')])"
proof -
  note fact = verbose_depends_on_type_only [where e = parse_a and a = "[]" and m = None
      and p = "[]" and t = None and c = None and ?e1.0 = parse_a
      and ?e2.0 = "CoverageParsingError_init Python2 ''z.cov'' [(''drcov'', ''bad header'')]"]
  have same: "etype parse_a =
      etype (CoverageParsingError_init Python2 ''z.cov'' [(''drcov'', ''bad header'')])"
    by (simp add: example_defs)
  have parsing: "etype parse_a = CoverageParsingError"
    by (simp add: example_defs)
  from fact have "verbose parse_a =
      Inr (''Error: '' @ name (etype parse_a) @ ''\<newline>\<newline>'' @ description (etype parse_a))"
    by (rule conjunct1)
  then have vtext: "verbose parse_a =
      Inr (''Error: PARSE_FAILURE\<newline>\<newline>'' @ description CoverageParsingError)"
    unfolding parsing by simp
  from fact same have "verbose parse_a =
      verbose (CoverageParsingError_init Python2 ''z.cov'' [(''drcov'', ''bad header'')])"
    by blast
  with vtext same show ?thesis
    by blast
qed

subsection \<open>\<^verbatim>\<open>warn_errors\<close>: the empty batch and the unbound loop variable\<close>

text \<open>
  C5. For the empty batch \<^verbatim>\<open>warn_errors\<close> returns at once: the world it leaves is the
  world it found (no line logged, no separator, no message box), whatever \<^verbatim>\<open>ignore\<close> holds.
\<close>

theorem empty_batch_is_noop:
  "warn_errors host (s\<lparr>errors := []\<rparr>) = (Returned, s\<lparr>errors := []\<rparr>)"
  by (simp add: warn_errors_def)

theorem empty_batch_is_noop_witness:
  "warn_errors headless \<lparr>errors = [], ignore = [CoverageParsingError], console = []\<rparr> =
     (Returned, \<lparr>errors = [], ignore = [CoverageParsingError], console = []\<rparr>)"
  using empty_batch_is_noop [of headless "\<lparr>errors = [], ignore = [CoverageParsingError], console = []\<rparr>"]
  by simp

text \<open>
  C9. When the first error type of a non-empty batch has an empty list and is not ignored,
  \<^verbatim>\<open>warn_errors\<close> logs that type's separator and header and then fails with an
  UnboundLocalError where it reads \<^verbatim>\<open>error.verbose\<close>: the inner loop never bound \<^verbatim>\<open>error\<close>.
  Nothing else is logged, no box is shown, the remaining types are not visited.
\<close>

theorem unbound_error_on_empty_first_type:
  assumes "errors s = (error_type, []) # items"
    and "error_type \<notin> set (ignore s)"
  shows "warn_errors host s =
     (Raised UnboundLocalError,
      s\<lparr>console := console s @
         [Lmsg (repeat_str ''-'' 50), Lmsg (''Files reporting '' @ name error_type @ '':'')]\<rparr>)"
proof -
  have "type_events host (ignore s) (error_type, []) None =
      (Raised UnboundLocalError, None, group_log error_type [])"
    using assms(2) by (simp add: type_events_def bound_after_def)
  then show ?thesis
    using assms(1) by (simp add: warn_errors_eq group_log_def files_log_def)
qed

theorem unbound_error_on_empty_first_type_witness:
  "errors \<lparr>errors = [(CoverageParsingError, []), (CoverageMissingError, [missing_b])],
            ignore = [CoverageMissingError], console = []\<rparr> =
     (CoverageParsingError, []) # [(CoverageMissingError, [missing_b])] \<and>
   CoverageParsingError \<notin> set (ignore \<lparr>errors = [(CoverageParsingError, []), (CoverageMissingError, [missing_b])],
            ignore = [CoverageMissingError], console = []\<rparr>) \<and>
   warn_errors shown
     \<lparr>errors = [(CoverageParsingError, []), (CoverageMissingError, [missing_b])],
      ignore = [CoverageMissingError], console = []\<rparr> =
     (Raised UnboundLocalError,
      \<lparr>errors = [(CoverageParsingError, []), (CoverageMissingError, [missing_b])],
       ignore = [CoverageMissingError],
       console = [Lmsg ''--------------------------------------------------'',
                  Lmsg ''Files reporting PARSE_FAILURE:'']\<rparr>)"
  using unbound_error_on_empty_first_type [of
      "\<lparr>errors = [(CoverageParsingError, []), (CoverageMissingError, [missing_b])],
        ignore = [CoverageMissingError], console = []\<rparr>"
      CoverageParsingError "[(CoverageMissingError, [missing_b])]" shown]
  by (simp add: separator_literal)

subsection \<open>\<^verbatim>\<open>warn_errors\<close>: message boxes\<close>

text \<open>
  The module has no \<^verbatim>\<open>try\<close>. On a headless host the first message box raises and the
  exception leaves \<^verbatim>\<open>warn_errors\<close>: the second error type of the batch is not ignored and
  has two instances, yet nothing is logged for it and no box is requested for it.
\<close>

theorem later_type_gets_no_box_after_host_failure:
  "warn_errors headless (two_types []) =
     (Raised (HostError ''no display''),
      (two_types [])
        \<lparr>console :=
           [Lmsg ''--------------------------------------------------'',
            Lmsg ''Files reporting PARSE_FAILURE:'',
            Lmsg '' - a.cov'',
            Warning (''Error: PARSE_FAILURE\<newline>\<newline>'' @ description CoverageParsingError)]\<rparr>)"
  by (simp add: run_defs)

text \<open>
  C1 (amended). Take an error type of the batch that is not ignored and has at least one
  instance, and suppose the loop over the types before it returned normally, leaving the
  world \<open>s1\<close>. Then \<^verbatim>\<open>warn_errors\<close> appends to the console of \<open>s1\<close> the separator, the
  header and one line per file of that type, then one message box call, whose text is the
  verbose message of the last instance of the list. If that call raises, the report ends
  there with the host's exception; otherwise the next event is a separator (of the next
  type, or the closing one).

  Over the whole report: when the keys of the dictionary are distinct, every instance is
  filed under its own class and every later type that is not ignored has at least one
  instance, that call is the only event of the report with this text, so the box of the
  type is requested exactly once. And when every type that is not ignored has at least one
  instance, the message box calls of the whole report are, in the order of the batch, one
  per type that is not ignored, with the verbose message of its last instance, up to and
  including the first call the host raises on.
\<close>

theorem one_box_per_reported_type:
  assumes "errors s = before @ (error_type, error_list) # after"
    and "for_error_type host before (None, s) = (Returned, error, s1)"
    and "error_type \<notin> set (ignore s)"
    and "error_list \<noteq> []"
  shows "\<exists>text tr rest.
     verbose (last error_list) = Inr text \<and>
     console (snd (warn_errors host s)) = console s @ tr \<and>
     console s @ tr =
       console s1 @
       [Lmsg (repeat_str ''-'' 50), Lmsg (''Files reporting '' @ name error_type @ '':'')] @
       map (\<lambda>e. Lmsg ('' - '' @ filepath e)) error_list @ [Warning text] @ rest \<and>
     (case host text of
        Some x \<Rightarrow> rest = [] \<and> fst (warn_errors host s) = Raised x
      | None \<Rightarrow> (\<exists>r. rest = Lmsg (repeat_str ''-'' 50) # r)) \<and>
     (distinct (map fst (errors s)) \<and>
      (\<forall>(k, l) \<in> set (errors s). \<forall>e \<in> set l. etype e = k) \<and>
      (\<forall>(k, l) \<in> set after. k \<notin> set (ignore s) \<longrightarrow> l \<noteq> []) \<longrightarrow>
      count_list tr (Warning text) = 1) \<and>
     ((\<forall>(k, l) \<in> set (errors s). k \<notin> set (ignore s) \<longrightarrow> l \<noteq> []) \<longrightarrow>
      (\<exists>ws.
         map (\<lambda>(k, l). verbose (last l))
           (filter (\<lambda>(k, l). k \<notin> set (ignore s)) (errors s)) = map Inr ws \<and>
         boxes tr = requested host ws))"
proof -
  from before_console [OF assms(2)] obtain t1 where
    before: "loop_events host (ignore s) before None = (Returned, error, t1)"
    and s1: "s1 = s\<lparr>console := console s @ t1\<rparr>"
    by blast
  let ?e = "last error_list"
  let ?text = "verbose_text ?e"
  let ?group = "group_log error_type error_list"
  let ?out = "case host ?text of Some x \<Rightarrow> Raised x | None \<Rightarrow> Returned"
  have item: "type_events host (ignore s) (error_type, error_list) error =
      (?out, Some ?e, ?group @ [Warning ?text])"
    using assms(3,4) by (simp add: type_events_def bound_after_def)
  obtain o3 e3 t3 where
    after: "loop_events host (ignore s) after (Some ?e) = (o3, e3, t3)"
    by (cases "loop_events host (ignore s) after (Some ?e)") auto
  define closing where
    "closing = (case o3 of Returned \<Rightarrow> [Lmsg (repeat_str ''-'' 50)] | Raised x \<Rightarrow> [])"
  define rest where "rest = (case host ?text of Some x \<Rightarrow> [] | None \<Rightarrow> t3 @ closing)"
  have whole: "console (snd (warn_errors host s)) = console s @ t1 @ (?group @ [Warning ?text]) @ rest"
    and ends: "case host ?text of
        Some x \<Rightarrow> rest = [] \<and> fst (warn_errors host s) = Raised x
      | None \<Rightarrow> (\<exists>r. rest = Lmsg (repeat_str ''-'' 50) # r)"
  proof -
    show "console (snd (warn_errors host s)) = console s @ t1 @ (?group @ [Warning ?text]) @ rest"
    proof (cases "host ?text")
      case None
      with item have "type_events host (ignore s) (error_type, error_list) error =
          (Returned, Some ?e, ?group @ [Warning ?text])" by simp
      from warn_errors_console_returned [OF assms(1) before this after] None
      show ?thesis by (simp add: rest_def closing_def)
    next
      case (Some x)
      with item have "type_events host (ignore s) (error_type, error_list) error =
          (Raised x, Some ?e, ?group @ [Warning ?text])" by simp
      from warn_errors_console_raised [OF assms(1) before this] Some
      show ?thesis by (simp add: rest_def)
    qed
    show "case host ?text of
        Some x \<Rightarrow> rest = [] \<and> fst (warn_errors host s) = Raised x
      | None \<Rightarrow> (\<exists>r. rest = Lmsg (repeat_str ''-'' 50) # r)"
    proof (cases "host ?text")
      case None
      from finish_hd [OF after] obtain r where
        "t3 @ closing = Lmsg (repeat_str ''-'' 50) # r"
        unfolding closing_def by (cases o3) auto
      with None show ?thesis by (simp add: rest_def)
    next
      case (Some x)
      with item have "type_events host (ignore s) (error_type, error_list) error =
          (Raised x, Some ?e, ?group @ [Warning ?text])" by simp
      from warn_errors_console_raised [OF assms(1) before this] Some
      show ?thesis by (simp add: rest_def)
    qed
  qed
  have shape: "console (snd (warn_errors host s)) =
       console s1 @
       [Lmsg (repeat_str ''-'' 50), Lmsg (''Files reporting '' @ name error_type @ '':'')] @
       map (\<lambda>e. Lmsg ('' - '' @ filepath e)) error_list @ [Warning ?text] @ rest"
    using whole by (simp add: s1 group_log_def files_log_def)
  have once: "count_list (t1 @ (?group @ [Warning ?text]) @ rest) (Warning ?text) = 1"
    if keys: "distinct (map fst (errors s))"
      and filed: "\<forall>(k, l) \<in> set (errors s). \<forall>e \<in> set l. etype e = k"
      and later: "\<forall>(k, l) \<in> set after. k \<notin> set (ignore s) \<longrightarrow> l \<noteq> []"
  proof -
    have kind: "etype ?e = error_type"
      using filed assms(1,4) last_in_set [of error_list] by fastforce
    note none = no_box_of_type_elsewhere [OF assms(1) keys filed later before after kind]
    have "Warning ?text \<notin> set closing"
      by (cases o3) (simp_all add: closing_def)
    with none(2) have "Warning ?text \<notin> set rest"
      by (cases "host ?text") (simp_all add: rest_def)
    with none(1) group_log_no_box [of ?text error_type error_list] show ?thesis
      by simp
  qed
  let ?tr = "t1 @ (?group @ [Warning ?text]) @ rest"
  have shape': "console s @ ?tr =
       console s1 @
       [Lmsg (repeat_str ''-'' 50), Lmsg (''Files reporting '' @ name error_type @ '':'')] @
       map (\<lambda>e. Lmsg ('' - '' @ filepath e)) error_list @ [Warning ?text] @ rest"
    using shape whole by simp
  have exactly: "distinct (map fst (errors s)) \<and>
      (\<forall>(k, l) \<in> set (errors s). \<forall>e \<in> set l. etype e = k) \<and>
      (\<forall>(k, l) \<in> set after. k \<notin> set (ignore s) \<longrightarrow> l \<noteq> []) \<longrightarrow>
      count_list ?tr (Warning ?text) = 1"
    using once by (intro impI, elim conjE)
  have all_boxes: "(\<forall>(k, l) \<in> set (errors s). k \<notin> set (ignore s) \<longrightarrow> l \<noteq> []) \<longrightarrow>
      (\<exists>ws.
         map (\<lambda>(k, l). verbose (last l))
           (filter (\<lambda>(k, l). k \<notin> set (ignore s)) (errors s)) = map Inr ws \<and>
         boxes ?tr = requested host ws)"
    using warn_errors_requested [OF _ whole] by (intro impI)
  show ?thesis
    by (rule exI [of _ ?text], rule exI [of _ ?tr], rule exI [of _ rest], intro conjI)
      (rule verbose_eq whole shape' ends exactly all_boxes)+
qed

theorem one_box_per_reported_type_witness:
  "errors (three_types [CoverageParsingError]) =
     [(CoverageParsingError, [parse_a])] @
     (CoverageMissingError, [missing_b, missing_d]) # [(CoverageMappingSuspicious, [suspicious_c])] \<and>
   fst (for_error_type shown [(CoverageParsingError, [parse_a])]
          (None, three_types [CoverageParsingError])) = Returned \<and>
   CoverageMissingError \<notin> set (ignore (three_types [CoverageParsingError])) \<and>
   [missing_b, missing_d] \<noteq> [] \<and>
   distinct (map fst (errors (three_types [CoverageParsingError]))) \<and>
   list_all (\<lambda>item. list_all (\<lambda>e. etype e = fst item) (snd item))
     (errors (three_types [CoverageParsingError])) \<and>
   list_all (\<lambda>item. snd item \<noteq> []) (errors (three_types [CoverageParsingError])) \<and>
   (\<exists>rest.
      console (snd (warn_errors shown (three_types [CoverageParsingError]))) =
        [Lmsg ''--------------------------------------------------'',
         Lmsg ''Files reporting PARSE_FAILURE:'',
         Lmsg '' - a.cov'',
         Lmsg ''--------------------------------------------------'',
         Lmsg ''Files reporting NO_COVERAGE_ERROR:'',
         Lmsg '' - b.cov'',
         Lmsg '' - d.cov'',
         Warning (''Error: NO_COVERAGE_ERROR\<newline>\<newline>'' @ description CoverageMissingError),
         Lmsg ''--------------------------------------------------''] @ rest) \<and>
   count_list (console (snd (warn_errors shown (three_types [CoverageParsingError]))))
     (Warning (''Error: NO_COVERAGE_ERROR\<newline>\<newline>'' @ description CoverageMissingError)) = 1 \<and>
   boxes (console (snd (warn_errors shown (three_types [CoverageParsingError])))) =
     [''Error: NO_COVERAGE_ERROR\<newline>\<newline>'' @ description CoverageMissingError,
      ''Error: BAD_COVERAGE_MAPPING\<newline>\<newline>'' @ description CoverageMappingSuspicious]"
proof -
  let ?s = "three_types [CoverageParsingError]"
  let ?w = "''Error: NO_COVERAGE_ERROR\<newline>\<newline>'' @ description CoverageMissingError"
  have h1: "errors ?s =
      [(CoverageParsingError, [parse_a])] @
      (CoverageMissingError, [missing_b, missing_d]) # [(CoverageMappingSuspicious, [suspicious_c])]"
    by (simp add: three_types_simps)
  have h3: "CoverageMissingError \<notin> set (ignore ?s)"
    by (simp add: three_types_simps)
  have h4: "[missing_b, missing_d] \<noteq> []"
    by simp
  have keys: "distinct (map fst (errors ?s))"
    by (simp add: three_types_simps)
  have filed: "\<forall>(k, l) \<in> set (errors ?s). \<forall>e \<in> set l. etype e = k"
    by (simp add: three_types_simps example_types)
  have later: "\<forall>(k, l) \<in> set [(CoverageMappingSuspicious, [suspicious_c])].
      k \<notin> set (ignore ?s) \<longrightarrow> l \<noteq> []"
    by simp
  have reported: "\<forall>(k, l) \<in> set (errors ?s). k \<notin> set (ignore ?s) \<longrightarrow> l \<noteq> []"
    by (simp add: three_types_simps)
  from one_box_per_reported_type [OF h1 three_types_before_ignored h3 h4]
  obtain vtext tr rest where
    v: "verbose (last [missing_b, missing_d]) = Inr vtext"
    and whole: "console (snd (warn_errors shown ?s)) = console ?s @ tr"
    and c: "console ?s @ tr =
       console ((three_types [CoverageParsingError])
        \<lparr>console :=
           [Lmsg ''--------------------------------------------------'',
            Lmsg ''Files reporting PARSE_FAILURE:'',
            Lmsg '' - a.cov'']\<rparr>) @
       [Lmsg (repeat_str ''-'' 50), Lmsg (''Files reporting '' @ name CoverageMissingError @ '':'')] @
       map (\<lambda>e. Lmsg ('' - '' @ filepath e)) [missing_b, missing_d] @ [Warning vtext] @ rest"
    and r: "case shown vtext of
        Some x \<Rightarrow> rest = [] \<and> fst (warn_errors shown ?s) = Raised x
      | None \<Rightarrow> (\<exists>r. rest = Lmsg (repeat_str ''-'' 50) # r)"
    and once: "distinct (map fst (errors ?s)) \<and>
      (\<forall>(k, l) \<in> set (errors ?s). \<forall>e \<in> set l. etype e = k) \<and>
      (\<forall>(k, l) \<in> set [(CoverageMappingSuspicious, [suspicious_c])].
          k \<notin> set (ignore ?s) \<longrightarrow> l \<noteq> []) \<longrightarrow>
      count_list tr (Warning vtext) = 1"
    and every: "(\<forall>(k, l) \<in> set (errors ?s). k \<notin> set (ignore ?s) \<longrightarrow> l \<noteq> []) \<longrightarrow>
      (\<exists>ws.
         map (\<lambda>(k, l). verbose (last l))
           (filter (\<lambda>(k, l). k \<notin> set (ignore ?s)) (errors ?s)) = map Inr ws \<and>
         boxes tr = requested shown ws)"
    by blast
  have tr: "console (snd (warn_errors shown ?s)) = tr"
    using whole by (simp add: three_types_simps)
  from v have vt: "vtext = ?w"
    by (simp add: verbose_eq verbose_text_def example_types)
  from r obtain r' where rest: "rest = Lmsg (repeat_str ''-'' 50) # r'"
    by (auto simp: shown_def)
  have shape: "console (snd (warn_errors shown ?s)) =
        [Lmsg ''--------------------------------------------------'',
         Lmsg ''Files reporting PARSE_FAILURE:'',
         Lmsg '' - a.cov'',
         Lmsg ''--------------------------------------------------'',
         Lmsg ''Files reporting NO_COVERAGE_ERROR:'',
         Lmsg '' - b.cov'',
         Lmsg '' - d.cov'',
         Warning ?w,
         Lmsg ''--------------------------------------------------''] @ r'"
    unfolding whole c rest vt
    by (simp add: separator_literal example_types)
  then have ex: "\<exists>rest. console (snd (warn_errors shown ?s)) =
        [Lmsg ''--------------------------------------------------'',
         Lmsg ''Files reporting PARSE_FAILURE:'',
         Lmsg '' - a.cov'',
         Lmsg ''--------------------------------------------------'',
         Lmsg ''Files reporting NO_COVERAGE_ERROR:'',
         Lmsg '' - b.cov'',
         Lmsg '' - d.cov'',
         Warning ?w,
         Lmsg ''--------------------------------------------------''] @ rest"
    by (rule exI)
  from once keys filed later have "count_list tr (Warning vtext) = 1"
    by blast
  then have count: "count_list (console (snd (warn_errors shown ?s))) (Warning ?w) = 1"
    unfolding vt tr .
  from every reported obtain ws where
    ws: "map (\<lambda>(k, l). verbose (last l))
           (filter (\<lambda>(k, l). k \<notin> set (ignore ?s)) (errors ?s)) = map Inr ws"
    and asked: "boxes tr = requested shown ws"
    by blast
  from ws have "ws =
      map (\<lambda>(k, l). verbose_text (last l))
        (filter (\<lambda>(k, l). k \<notin> set (ignore ?s)) (errors ?s))"
    by (auto simp: three_types_simps verbose_eq)
  with asked have all_boxes: "boxes (console (snd (warn_errors shown ?s))) =
     [?w, ''Error: BAD_COVERAGE_MAPPING\<newline>\<newline>'' @ description CoverageMappingSuspicious]"
    unfolding tr
    by (simp add: three_types_simps verbose_eq verbose_text_def shown_def example_types)
  have reached: "fst (for_error_type shown [(CoverageParsingError, [parse_a])] (None, ?s)) = Returned"
    by (simp only: three_types_before_ignored fst_conv)
  have filed': "list_all (\<lambda>item. list_all (\<lambda>e. etype e = fst item) (snd item)) (errors ?s)"
    by (simp add: three_types_simps example_types)
  have later': "list_all (\<lambda>item. snd item \<noteq> []) (errors ?s)"
    by (simp add: three_types_simps)
  show ?thesis
    by (intro conjI) (rule h1 reached h3 h4 keys filed' later' ex count all_boxes)+
qed

text \<open>
  With the second type ignored and a headless host, the report ends at the first type's
  message box: the ignored type's header and file lines are never logged.
\<close>

theorem ignored_type_not_logged_after_host_failure:
  "warn_errors headless (two_types [CoverageMissingError]) =
     (Raised (HostError ''no display''),
      (two_types [CoverageMissingError])
        \<lparr>console :=
           [Lmsg ''--------------------------------------------------'',
            Lmsg ''Files reporting PARSE_FAILURE:'',
            Lmsg '' - a.cov'',
            Warning (''Error: PARSE_FAILURE\<newline>\<newline>'' @ description CoverageParsingError)]\<rparr>)"
  by (simp add: run_defs)

text \<open>
  C3 (amended). Take an error type of the batch that is ignored, and suppose the loop over
  the types before it returned normally, leaving the world \<open>s1\<close>. Then \<^verbatim>\<open>warn_errors\<close>
  appends to the console of \<open>s1\<close> the separator, the header and one line per file of that
  type, in the order of the list, and the very next event is a separator.

  Over the whole report: when the keys of the dictionary are distinct, every instance is
  filed under its own class and every later type that is not ignored has at least one
  instance, no event of the report is a message box call with the verbose message of an
  instance of the ignored type. And when every type that is not ignored has at least one
  instance, the message box calls of the whole report are exactly those of the types that
  are not ignored, one each in the order of the batch, up to and including the first call
  the host raises on.
\<close>

theorem ignored_type_is_logged_without_box:
  assumes "errors s = before @ (error_type, error_list) # after"
    and "for_error_type host before (None, s) = (Returned, error, s1)"
    and "error_type \<in> set (ignore s)"
  shows "\<exists>tr rest.
     console (snd (warn_errors host s)) = console s @ tr \<and>
     console s @ tr =
       console s1 @
       [Lmsg (repeat_str ''-'' 50), Lmsg (''Files reporting '' @ name error_type @ '':'')] @
       map (\<lambda>e. Lmsg ('' - '' @ filepath e)) error_list @
       [Lmsg (repeat_str ''-'' 50)] @ rest \<and>
     (distinct (map fst (errors s)) \<and>
      (\<forall>(k, l) \<in> set (errors s). \<forall>e \<in> set l. etype e = k) \<and>
      (\<forall>(k, l) \<in> set after. k \<notin> set (ignore s) \<longrightarrow> l \<noteq> []) \<longrightarrow>
      (\<forall>e text. etype e = error_type \<longrightarrow> verbose e = Inr text \<longrightarrow>
         Warning text \<notin> set tr)) \<and>
     ((\<forall>(k, l) \<in> set (errors s). k \<notin> set (ignore s) \<longrightarrow> l \<noteq> []) \<longrightarrow>
      (\<exists>ws.
         map (\<lambda>(k, l). verbose (last l))
           (filter (\<lambda>(k, l). k \<notin> set (ignore s)) (errors s)) = map Inr ws \<and>
         boxes tr = requested host ws))"
proof -
  from before_console [OF assms(2)] obtain t1 where
    before: "loop_events host (ignore s) before None = (Returned, error, t1)"
    and s1: "s1 = s\<lparr>console := console s @ t1\<rparr>"
    by blast
  let ?group = "group_log error_type error_list"
  let ?frame = "bound_after error_list error"
  have item: "type_events host (ignore s) (error_type, error_list) error =
      (Returned, ?frame, ?group)"
    using assms(3) by (simp add: type_events_def)
  obtain o3 e3 t3 where
    after: "loop_events host (ignore s) after ?frame = (o3, e3, t3)"
    by (cases "loop_events host (ignore s) after ?frame") auto
  define closing where
    "closing = (case o3 of Returned \<Rightarrow> [Lmsg (repeat_str ''-'' 50)] | Raised x \<Rightarrow> [])"
  have whole: "console (snd (warn_errors host s)) = console s @ t1 @ ?group @ t3 @ closing"
    using warn_errors_console_returned [OF assms(1) before item after]
    by (simp add: closing_def)
  from finish_hd [OF after] obtain r where
    r: "t3 @ closing = Lmsg (repeat_str ''-'' 50) # r"
    unfolding closing_def by (cases o3) auto
  have "console (snd (warn_errors host s)) = console s @ t1 @ ?group @ (t3 @ closing)"
    using whole by simp
  then have shape: "console (snd (warn_errors host s)) =
       console s1 @
       [Lmsg (repeat_str ''-'' 50), Lmsg (''Files reporting '' @ name error_type @ '':'')] @
       map (\<lambda>e. Lmsg ('' - '' @ filepath e)) error_list @
       [Lmsg (repeat_str ''-'' 50)] @ r"
    unfolding r by (simp add: s1 group_log_def files_log_def)
  have none: "Warning w \<notin> set (t1 @ ?group @ t3 @ closing)"
    if keys: "distinct (map fst (errors s))"
      and filed: "\<forall>(k, l) \<in> set (errors s). \<forall>e \<in> set l. etype e = k"
      and later: "\<forall>(k, l) \<in> set after. k \<notin> set (ignore s) \<longrightarrow> l \<noteq> []"
      and kind: "etype e = error_type" and v: "verbose e = Inr w"
    for e w
  proof -
    from v have vt: "w = verbose_text e"
      by (simp add: verbose_eq)
    note elsewhere = no_box_of_type_elsewhere [OF assms(1) keys filed later before after kind]
    have "Warning w \<notin> set closing"
      by (cases o3) (simp_all add: closing_def)
    with elsewhere group_log_no_box [of w error_type error_list] show ?thesis
      unfolding vt by simp
  qed
  let ?tr = "t1 @ ?group @ t3 @ closing"
  have shape': "console s @ ?tr =
       console s1 @
       [Lmsg (repeat_str ''-'' 50), Lmsg (''Files reporting '' @ name error_type @ '':'')] @
       map (\<lambda>e. Lmsg ('' - '' @ filepath e)) error_list @
       [Lmsg (repeat_str ''-'' 50)] @ r"
    using shape whole by simp
  have elsewhere: "distinct (map fst (errors s)) \<and>
      (\<forall>(k, l) \<in> set (errors s). \<forall>e \<in> set l. etype e = k) \<and>
      (\<forall>(k, l) \<in> set after. k \<notin> set (ignore s) \<longrightarrow> l \<noteq> []) \<longrightarrow>
      (\<forall>e text. etype e = error_type \<longrightarrow> verbose e = Inr text \<longrightarrow>
         Warning text \<notin> set ?tr)"
    using none by (intro impI allI, elim conjE)
  have all_boxes: "(\<forall>(k, l) \<in> set (errors s). k \<notin> set (ignore s) \<longrightarrow> l \<noteq> []) \<longrightarrow>
      (\<exists>ws.
         map (\<lambda>(k, l). verbose (last l))
           (filter (\<lambda>(k, l). k \<notin> set (ignore s)) (errors s)) = map Inr ws \<and>
         boxes ?tr = requested host ws)"
    using warn_errors_requested [OF _ whole] by (intro impI)
  show ?thesis
    by (rule exI [of _ ?tr], rule exI [of _ r], intro conjI)
      (rule whole shape' elsewhere all_boxes)+
qed

theorem ignored_type_is_logged_without_box_witness:
  "errors (three_types [CoverageMissingError]) =
     [(CoverageParsingError, [parse_a])] @
     (CoverageMissingError, [missing_b, missing_d]) # [(CoverageMappingSuspicious, [suspicious_c])] \<and>
   fst (for_error_type shown [(CoverageParsingError, [parse_a])]
          (None, three_types [CoverageMissingError])) = Returned \<and>
   CoverageMissingError \<in> set (ignore (three_types [CoverageMissingError])) \<and>
   distinct (map fst (errors (three_types [CoverageMissingError]))) \<and>
   list_all (\<lambda>item. list_all (\<lambda>e. etype e = fst item) (snd item))
     (errors (three_types [CoverageMissingError])) \<and>
   list_all (\<lambda>item. snd item \<noteq> []) (errors (three_types [CoverageMissingError])) \<and>
   (\<exists>rest.
      console (snd (warn_errors shown (three_types [CoverageMissingError]))) =
        [Lmsg ''--------------------------------------------------'',
         Lmsg ''Files reporting PARSE_FAILURE:'',
         Lmsg '' - a.cov'',
         Warning (''Error: PARSE_FAILURE\<newline>\<newline>'' @ description CoverageParsingError),
         Lmsg ''--------------------------------------------------'',
         Lmsg ''Files reporting NO_COVERAGE_ERROR:'',
         Lmsg '' - b.cov'',
         Lmsg '' - d.cov'',
         Lmsg ''--------------------------------------------------''] @ rest) \<and>
   Warning (''Error: NO_COVERAGE_ERROR\<newline>\<newline>'' @ description CoverageMissingError) \<notin>
     set (console (snd (warn_errors shown (three_types [CoverageMissingError])))) \<and>
   boxes (console (snd (warn_errors shown (three_types [CoverageMissingError])))) =
     [''Error: PARSE_FAILURE\<newline>\<newline>'' @ description CoverageParsingError,
      ''Error: BAD_COVERAGE_MAPPING\<newline>\<newline>'' @ description CoverageMappingSuspicious]"
proof -
  let ?s = "three_types [CoverageMissingError]"
  let ?w = "''Error: NO_COVERAGE_ERROR\<newline>\<newline>'' @ description CoverageMissingError"
  have h1: "errors ?s =
      [(CoverageParsingError, [parse_a])] @
      (CoverageMissingError, [missing_b, missing_d]) # [(CoverageMappingSuspicious, [suspicious_c])]"
    by (simp add: three_types_simps)
  have h3: "CoverageMissingError \<in> set (ignore ?s)"
    by (simp add: three_types_simps)
  have keys: "distinct (map fst (errors ?s))"
    by (simp add: three_types_simps)
  have filed: "\<forall>(k, l) \<in> set (errors ?s). \<forall>e \<in> set l. etype e = k"
    by (simp add: three_types_simps example_types)
  have later: "\<forall>(k, l) \<in> set [(CoverageMappingSuspicious, [suspicious_c])].
      k \<notin> set (ignore ?s) \<longrightarrow> l \<noteq> []"
    by simp
  have reported: "\<forall>(k, l) \<in> set (errors ?s). k \<notin> set (ignore ?s) \<longrightarrow> l \<noteq> []"
    by (simp add: three_types_simps)
  from ignored_type_is_logged_without_box [OF h1 three_types_before_shown h3]
  obtain tr rest where
    whole: "console (snd (warn_errors shown ?s)) = console ?s @ tr"
    and c: "console ?s @ tr =
       console ((three_types [CoverageMissingError])
        \<lparr>console :=
           [Lmsg ''--------------------------------------------------'',
            Lmsg ''Files reporting PARSE_FAILURE:'',
            Lmsg '' - a.cov'',
            Warning (''Error: PARSE_FAILURE\<newline>\<newline>'' @ description CoverageParsingError)]\<rparr>) @
       [Lmsg (repeat_str ''-'' 50), Lmsg (''Files reporting '' @ name CoverageMissingError @ '':'')] @
       map (\<lambda>e. Lmsg ('' - '' @ filepath e)) [missing_b, missing_d] @
       [Lmsg (repeat_str ''-'' 50)] @ rest"
    and none: "distinct (map fst (errors ?s)) \<and>
      (\<forall>(k, l) \<in> set (errors ?s). \<forall>e \<in> set l. etype e = k) \<and>
      (\<forall>(k, l) \<in> set [(CoverageMappingSuspicious, [suspicious_c])].
          k \<notin> set (ignore ?s) \<longrightarrow> l \<noteq> []) \<longrightarrow>
      (\<forall>e w. etype e = CoverageMissingError \<longrightarrow> verbose e = Inr w \<longrightarrow>
         Warning w \<notin> set tr)"
    and every: "(\<forall>(k, l) \<in> set (errors ?s). k \<notin> set (ignore ?s) \<longrightarrow> l \<noteq> []) \<longrightarrow>
      (\<exists>ws.
         map (\<lambda>(k, l). verbose (last l))
           (filter (\<lambda>(k, l). k \<notin> set (ignore ?s)) (errors ?s)) = map Inr ws \<and>
         boxes tr = requested shown ws)"
    by blast
  have tr: "console (snd (warn_errors shown ?s)) = tr"
    using whole by (simp add: three_types_simps)
  have shape: "console (snd (warn_errors shown ?s)) =
        [Lmsg ''--------------------------------------------------'',
         Lmsg ''Files reporting PARSE_FAILURE:'',
         Lmsg '' - a.cov'',
         Warning (''Error: PARSE_FAILURE\<newline>\<newline>'' @ description CoverageParsingError),
         Lmsg ''--------------------------------------------------'',
         Lmsg ''Files reporting NO_COVERAGE_ERROR:'',
         Lmsg '' - b.cov'',
         Lmsg '' - d.cov'',
         Lmsg ''--------------------------------------------------''] @ rest"
    unfolding whole c
    by (simp add: separator_literal example_types)
  then have ex: "\<exists>rest. console (snd (warn_errors shown ?s)) =
        [Lmsg ''--------------------------------------------------'',
         Lmsg ''Files reporting PARSE_FAILURE:'',
         Lmsg '' - a.cov'',
         Warning (''Error: PARSE_FAILURE\<newline>\<newline>'' @ description CoverageParsingError),
         Lmsg ''--------------------------------------------------'',
         Lmsg ''Files reporting NO_COVERAGE_ERROR:'',
         Lmsg '' - b.cov'',
         Lmsg '' - d.cov'',
         Lmsg ''--------------------------------------------------''] @ rest"
    by (rule exI)
  from none keys filed later have
    no: "\<And>e w. etype e = CoverageMissingError \<Longrightarrow> verbose e = Inr w \<Longrightarrow> Warning w \<notin> set tr"
    by blast
  have "verbose missing_b = Inr ?w"
    by (simp add: verbose_eq verbose_text_def example_types)
  from no [OF example_types(2) this] have absent: "Warning ?w \<notin> set (console (snd (warn_errors shown ?s)))"
    unfolding tr .
  from every reported obtain ws where
    ws: "map (\<lambda>(k, l). verbose (last l))
           (filter (\<lambda>(k, l). k \<notin> set (ignore ?s)) (errors ?s)) = map Inr ws"
    and asked: "boxes tr = requested shown ws"
    by blast
  from ws have "ws =
      map (\<lambda>(k, l). verbose_text (last l))
        (filter (\<lambda>(k, l). k \<notin> set (ignore ?s)) (errors ?s))"
    by (auto simp: three_types_simps verbose_eq)
  with asked have all_boxes: "boxes (console (snd (warn_errors shown ?s))) =
     [''Error: PARSE_FAILURE\<newline>\<newline>'' @ description CoverageParsingError,
      ''Error: BAD_COVERAGE_MAPPING\<newline>\<newline>'' @ description CoverageMappingSuspicious]"
    unfolding tr
    by (simp add: three_types_simps verbose_eq verbose_text_def shown_def example_types)
  have reached: "fst (for_error_type shown [(CoverageParsingError, [parse_a])] (None, ?s)) = Returned"
    by (simp only: three_types_before_shown fst_conv)
  have filed': "list_all (\<lambda>item. list_all (\<lambda>e. etype e = fst item) (snd item)) (errors ?s)"
    by (simp add: three_types_simps example_types)
  have later': "list_all (\<lambda>item. snd item \<noteq> []) (errors ?s)"
    by (simp add: three_types_simps)
  show ?thesis
    by (intro conjI) (rule h1 reached h3 keys filed' later' ex absent all_boxes)+
qed

subsection \<open>\<^verbatim>\<open>warn_errors\<close>: exceptions\<close>

text \<open>
  A failing message box is not swallowed: on a headless host a batch with one reported
  file makes \<^verbatim>\<open>warn_errors\<close> raise the host's exception.
\<close>

theorem host_failure_is_raised:
  "fst (warn_errors headless
      \<lparr>errors = [(CoverageMissingError, [missing_b])], ignore = [], console = []\<rparr>) =
     Raised (HostError ''no display'')"
  by (simp add: run_defs)

text \<open>
  C2 (amended). \<^verbatim>\<open>warn_errors\<close> handles no exception. For every batch: when the loop has
  reached an error type that is not ignored and the message box it requests for it raises,
  \<^verbatim>\<open>warn_errors\<close> raises that exception to its caller, and the world it leaves is the one
  the loop had reached with the type's separator, header, file lines and the failed
  request appended: what was logged stays, nothing is logged for the remaining types, and
  there is no closing separator. (The text requested is the verbose message of the
  instance \<^verbatim>\<open>error\<close> is bound to after the type's file lines.)

  On a batch in which every error type that is not ignored has at least one instance,
  \<^verbatim>\<open>warn_errors\<close> returns normally exactly when every message box it requests (one per
  type that is not ignored, with the verbose message of the type's last instance) is
  shown; and when it raises, the exception is the one a requested message box raised.
\<close>

theorem host_failure_propagates:
  "(\<forall>before error_type error_list after error s1 e w x.
      errors s = before @ (error_type, error_list) # after \<longrightarrow>
      for_error_type host before (None, s) = (Returned, error, s1) \<longrightarrow>
      error_type \<notin> set (ignore s) \<longrightarrow>
      (if error_list = [] then error else Some (last error_list)) = Some e \<longrightarrow>
      verbose e = Inr w \<longrightarrow>
      host w = Some x \<longrightarrow>
      warn_errors host s =
        (Raised x,
         s1\<lparr>console := console s1 @
            [Lmsg (repeat_str ''-'' 50), Lmsg (''Files reporting '' @ name error_type @ '':'')] @
            map (\<lambda>e. Lmsg ('' - '' @ filepath e)) error_list @ [Warning w]\<rparr>)) \<and>
   ((\<forall>(error_type, error_list) \<in> set (errors s).
       error_type \<notin> set (ignore s) \<longrightarrow> error_list \<noteq> []) \<longrightarrow>
    ((fst (warn_errors host s) = Returned) =
      (\<forall>(error_type, error_list) \<in> set (errors s).
         error_type \<notin> set (ignore s) \<longrightarrow>
         (\<exists>w. verbose (last error_list) = Inr w \<and> host w = None))) \<and>
    (\<forall>x. fst (warn_errors host s) = Raised x \<longrightarrow>
      (\<exists>(error_type, error_list) \<in> set (errors s).
         error_type \<notin> set (ignore s) \<and>
         (\<exists>w. verbose (last error_list) = Inr w \<and> host w = Some x))))"
proof -
  have fst_eq: "fst (warn_errors host s) = fst (loop_events host (ignore s) (errors s) None)"
    by (cases "errors s = []") (auto simp: warn_errors_eq split: prod.splits outcome.splits)
  have second: "((fst (warn_errors host s) = Returned) =
      (\<forall>(error_type, error_list) \<in> set (errors s).
         error_type \<notin> set (ignore s) \<longrightarrow>
         (\<exists>w. verbose (last error_list) = Inr w \<and> host w = None))) \<and>
    (\<forall>x. fst (warn_errors host s) = Raised x \<longrightarrow>
      (\<exists>(error_type, error_list) \<in> set (errors s).
         error_type \<notin> set (ignore s) \<and>
         (\<exists>w. verbose (last error_list) = Inr w \<and> host w = Some x)))"
    if h: "\<forall>(error_type, error_list) \<in> set (errors s).
       error_type \<notin> set (ignore s) \<longrightarrow> error_list \<noteq> []"
    unfolding fst_eq verbose_eq
    using loop_outcome [OF h, of host None] loop_raised [OF h, of host None]
    by simp
  show ?thesis
    using failing_box_ends_report [of s _ _ _ _ host] second
    by (intro conjI allI impI) blast+
qed

theorem host_failure_propagates_witness:
  "errors (two_types []) =
     [] @ (CoverageParsingError, [parse_a]) # [(CoverageMissingError, [missing_b, missing_d])] \<and>
   for_error_type headless [] (None, two_types []) = (Returned, None, two_types []) \<and>
   CoverageParsingError \<notin> set (ignore (two_types [])) \<and>
   verbose parse_a =
     Inr (''Error: PARSE_FAILURE\<newline>\<newline>'' @ description CoverageParsingError) \<and>
   headless (''Error: PARSE_FAILURE\<newline>\<newline>'' @ description CoverageParsingError) =
     Some (HostError ''no display'') \<and>
   warn_errors headless (two_types []) =
     (Raised (HostError ''no display''),
      (two_types [])
        \<lparr>console :=
           [Lmsg ''--------------------------------------------------'',
            Lmsg ''Files reporting PARSE_FAILURE:'',
            Lmsg '' - a.cov'',
            Warning (''Error: PARSE_FAILURE\<newline>\<newline>'' @ description CoverageParsingError)]\<rparr>) \<and>
   list_all (\<lambda>item. fst item \<in> set [CoverageParsingError] \<or> snd item \<noteq> [])
     (errors (two_types [CoverageParsingError])) \<and>
   fst (warn_errors shown (two_types [CoverageParsingError])) = Returned \<and>
   fst (warn_errors headless (two_types [CoverageParsingError])) \<noteq> Returned"
proof -
  let ?w = "''Error: PARSE_FAILURE\<newline>\<newline>'' @ description CoverageParsingError"
  have h1: "errors (two_types []) =
      [] @ (CoverageParsingError, [parse_a]) # [(CoverageMissingError, [missing_b, missing_d])]"
    by (simp add: two_types_simps)
  have h2: "for_error_type headless [] (None, two_types []) = (Returned, None, two_types [])"
    by simp
  have h3: "CoverageParsingError \<notin> set (ignore (two_types []))"
    by (simp add: two_types_simps)
  have h4: "(if [parse_a] = [] then None else Some (last [parse_a])) = Some parse_a"
    by simp
  have h5: "verbose parse_a = Inr ?w"
    by (simp add: verbose_eq verbose_text_def example_types)
  have h6: "headless ?w = Some (HostError ''no display'')"
    by (simp add: headless_def)
  from host_failure_propagates [of "two_types []" headless] h1 h2 h3 h4 h5 h6
  have "warn_errors headless (two_types []) =
     (Raised (HostError ''no display''),
      (two_types [])
        \<lparr>console := console (two_types []) @
           [Lmsg (repeat_str ''-'' 50), Lmsg (''Files reporting '' @ name CoverageParsingError @ '':'')] @
           map (\<lambda>e. Lmsg ('' - '' @ filepath e)) [parse_a] @ [Warning ?w]\<rparr>)"
    by blast
  then have raised: "warn_errors headless (two_types []) =
     (Raised (HostError ''no display''),
      (two_types [])
        \<lparr>console :=
           [Lmsg ''--------------------------------------------------'',
            Lmsg ''Files reporting PARSE_FAILURE:'',
            Lmsg '' - a.cov'',
            Warning ?w]\<rparr>)"
    by (simp add: two_types_simps separator_literal example_types)
  let ?s = "two_types [CoverageParsingError]"
  have h: "\<forall>(error_type, error_list) \<in> set (errors ?s).
      error_type \<notin> set (ignore ?s) \<longrightarrow> error_list \<noteq> []"
    by (simp add: two_types_simps)
  have "\<forall>(error_type, error_list) \<in> set (errors ?s).
         error_type \<notin> set (ignore ?s) \<longrightarrow>
         (\<exists>w. verbose (last error_list) = Inr w \<and> shown w = None)"
    by (simp add: two_types_simps verbose_eq shown_def)
  with host_failure_propagates [of ?s shown] h have ok: "fst (warn_errors shown ?s) = Returned"
    by blast
  have "\<not> (\<forall>(error_type, error_list) \<in> set (errors ?s).
         error_type \<notin> set (ignore ?s) \<longrightarrow>
         (\<exists>w. verbose (last error_list) = Inr w \<and> headless w = None))"
    by (simp add: two_types_simps verbose_eq headless_def)
  with host_failure_propagates [of ?s headless] h have bad: "fst (warn_errors headless ?s) \<noteq> Returned"
    by blast
  have h': "list_all (\<lambda>item. fst item \<in> set [CoverageParsingError] \<or> snd item \<noteq> []) (errors ?s)"
    by (simp add: two_types_simps)
  show ?thesis
    by (intro conjI) (rule h1 h2 h3 h5 h6 raised h' ok bad)+
qed

subsection \<open>\<^verbatim>\<open>warn_errors\<close>: separators\<close>

text \<open>
  An error type with no instance still gets its separator and its header: for a batch
  whose only type has an empty list (and is ignored, so that no box is requested) two
  separator lines are logged, although no type of the batch has an instance.
\<close>

theorem separators_for_type_without_instances:
  "warn_errors shown empty_type =
     (Returned,
      empty_type
        \<lparr>console :=
           [Lmsg ''--------------------------------------------------'',
            Lmsg ''Files reporting PARSE_FAILURE:'',
            Lmsg ''--------------------------------------------------'']\<rparr>) \<and>
   map snd (errors empty_type) = [[]]"
  by (simp add: run_defs)

text \<open>
  C6 (amended). For every non-empty batch on which \<^verbatim>\<open>warn_errors\<close> returns normally, the
  lines it logs are one group per error type present in the batch (whether or not the type
  has an instance), each group starting with a separator line and holding no other, and
  one closing separator line after the last group: the number of separator lines is the
  number of error types of the batch plus one.
\<close>

theorem one_separator_per_type_and_one_closing:
  assumes "errors s \<noteq> []"
    and "distinct (map fst (errors s))"
    and "fst (warn_errors host s) = Returned"
  shows "\<exists>groups.
     console (snd (warn_errors host s)) = console s @ concat groups @ [Lmsg (repeat_str ''-'' 50)] \<and>
     length groups = card (fst ` set (errors s)) \<and>
     (\<forall>g \<in> set groups. \<exists>r. g = Lmsg (repeat_str ''-'' 50) # r \<and> Lmsg (repeat_str ''-'' 50) \<notin> set r) \<and>
     count_list (concat groups @ [Lmsg (repeat_str ''-'' 50)]) (Lmsg (repeat_str ''-'' 50)) =
       Suc (card (fst ` set (errors s)))"
proof -
  obtain out e tr where l: "loop_events host (ignore s) (errors s) None = (out, e, tr)"
    by (cases "loop_events host (ignore s) (errors s) None") auto
  with assms(1,3) have out: "out = Returned"
    by (cases out) (simp_all add: warn_errors_eq)
  from loop_events_groups [OF l [unfolded out]] obtain groups where
    g: "tr = concat groups" "length groups = length (errors s)"
      "\<forall>g \<in> set groups. \<exists>r. g = Lmsg (repeat_str ''-'' 50) # r \<and> Lmsg (repeat_str ''-'' 50) \<notin> set r"
    by blast
  have kinds: "card (fst ` set (errors s)) = length (errors s)"
    using distinct_card [OF assms(2)] by simp
  have console: "console (snd (warn_errors host s)) =
      console s @ concat groups @ [Lmsg (repeat_str ''-'' 50)]"
    using assms(1) l out g(1) by (simp add: warn_errors_eq)
  have "count_list (concat groups @ [Lmsg (repeat_str ''-'' 50)]) (Lmsg (repeat_str ''-'' 50)) =
      Suc (length groups)"
    using count_groups [OF g(3)] by simp
  with console g kinds show ?thesis
    by auto
qed

theorem one_separator_per_type_and_one_closing_witness:
  "errors (two_types [CoverageParsingError]) \<noteq> [] \<and>
   distinct (map fst (errors (two_types [CoverageParsingError]))) \<and>
   fst (warn_errors shown (two_types [CoverageParsingError])) = Returned \<and>
   (\<exists>groups.
      console (snd (warn_errors shown (two_types [CoverageParsingError]))) =
        concat groups @ [Lmsg (repeat_str ''-'' 50)] \<and>
      length groups = 2 \<and>
      count_list (concat groups @ [Lmsg (repeat_str ''-'' 50)]) (Lmsg (repeat_str ''-'' 50)) = 3)"
proof -
  let ?s = "two_types [CoverageParsingError]"
  have h1: "errors ?s \<noteq> []" and h2: "distinct (map fst (errors ?s))"
    by (simp_all add: two_types_simps)
  have h3: "fst (warn_errors shown ?s) = Returned"
    by (simp add: run_defs)
  have kinds: "card (fst ` set (errors ?s)) = 2"
    by (simp add: two_types_simps)
  from one_separator_per_type_and_one_closing [OF h1 h2 h3] show ?thesis
    using h1 h2 h3 unfolding kinds by (auto simp: two_types_simps)
qed

subsection \<open>\<^verbatim>\<open>warn_errors\<close>: calling it twice\<close>

text \<open>
  C7. A call of \<^verbatim>\<open>warn_errors\<close> changes nothing but the console, to which it appends some
  events \<open>tr\<close>; a second call on the world the first one left ends the same way (returns,
  or raises the same exception) and appends the same events again. The dictionary and the
  \<^verbatim>\<open>ignore\<close> list are the same after each call, and nothing of the first call (its local
  \<^verbatim>\<open>error\<close>, the console it found) reaches the second. The host is taken to answer a given
  text the same way each time.
\<close>

theorem second_report_repeats_first:
  "\<exists>out tr.
     warn_errors host s = (out, s\<lparr>console := console s @ tr\<rparr>) \<and>
     warn_errors host (snd (warn_errors host s)) =
       (out, s\<lparr>console := console s @ tr @ tr\<rparr>) \<and>
     errors (snd (warn_errors host s)) = errors s \<and>
     ignore (snd (warn_errors host s)) = ignore s \<and>
     errors (snd (warn_errors host (snd (warn_errors host s)))) = errors s \<and>
     ignore (snd (warn_errors host (snd (warn_errors host s)))) = ignore s"
proof -
  from warn_errors_frame [of host s] obtain out tr where
    f: "\<And>c. warn_errors host (s\<lparr>console := c\<rparr>) = (out, s\<lparr>console := c @ tr\<rparr>)"
    by blast
  have first: "warn_errors host s = (out, s\<lparr>console := console s @ tr\<rparr>)"
    using f [of "console s"] by simp
  have second: "warn_errors host (s\<lparr>console := console s @ tr\<rparr>) =
      (out, s\<lparr>console := console s @ tr @ tr\<rparr>)"
    using f [of "console s @ tr"] by simp
  show ?thesis
    using first second by auto
qed

theorem second_report_repeats_first_witness:
  "\<exists>out tr.
     warn_errors shown (two_types [CoverageParsingError]) =
       (out, (two_types [CoverageParsingError])\<lparr>console := tr\<rparr>) \<and>
     warn_errors shown (snd (warn_errors shown (two_types [CoverageParsingError]))) =
       (out, (two_types [CoverageParsingError])\<lparr>console := tr @ tr\<rparr>) \<and>
     errors (snd (warn_errors shown (snd (warn_errors shown (two_types [CoverageParsingError]))))) =
       errors (two_types [CoverageParsingError])"
  using second_report_repeats_first [of shown "two_types [CoverageParsingError]"]
  by (auto simp: two_types_simps)

end
